theory Spec2Isabelle
  imports
    Complex_Main
    "HOL-Library.Word"
    "HOL-Library.Char_ord"
    "HOL-Library.List_Lexorder"
    "HOL-Library.AList"
begin

section \<open>The GELF writer of logrus-graylog-hook (gelf\_writer.go)\<close>

text \<open>
  A shallow embedding of \<^verbatim>\<open>src/gelf_writer.go\<close>: the chunk arithmetic and the chunked
  send (\<^verbatim>\<open>numChunks\<close>, \<^verbatim>\<open>writeChunked\<close>), the send itself with its compressor
  bookkeeping (\<^verbatim>\<open>WriteMessage\<close>), and the JSON codec of a message
  (\<^verbatim>\<open>MarshalJSON\<close>, \<^verbatim>\<open>UnmarshalJSON\<close>).

  Conventions.
  \<^item> A Go \<^verbatim>\<open>[]byte\<close> is a list of 8-bit words; a Go \<^verbatim>\<open>string\<close> is a \<open>string\<close>.
  \<^item> A Go \<^verbatim>\<open>int\<close> is an \<open>int\<close>: every \<^verbatim>\<open>int\<close> of this file is a length, an
    offset below a length, or \<^verbatim>\<open>len(b)/1408 + 1\<close>, so none can leave the 64-bit range.
    A \<^verbatim>\<open>uint8\<close> is an \<open>8 word\<close>, whose \<open>+\<close> wraps as Go's does.
  \<^item> A function that can return an error or panic returns \<open>fault + 'a\<close>.
  \<^item> What the program does to the outside (datagrams handed to the connection, reads
    of the random source) is recorded in a state of type \<open>env\<close>; how the outside
    answers is a parameter of type \<open>outside\<close>.
\<close>

subsection \<open>Bytes, errors and panics\<close>

type_synonym byte = "8 word"
type_synonym bytes = "byte list"

text \<open>The errors the file builds with \<^verbatim>\<open>fmt.Errorf\<close>, by their arguments, and the errors
  it passes on from a library.\<close>

datatype goerror =
    MsgTooLarge int                       \<comment> \<open>\<^verbatim>\<open>msg too large, would need %d chunks\<close>\<close>
  | RandReaderError int "string option"   \<comment> \<open>\<^verbatim>\<open>rand.Reader: %d/%s\<close>\<close>
  | WriteChunkError byte byte string      \<comment> \<open>\<^verbatim>\<open>Write (chunk %d/%d): %s\<close>\<close>
  | WriteLenError byte byte int int       \<comment> \<open>\<^verbatim>\<open>Write len: (chunk %d/%d) (%d/%d)\<close>\<close>
  | BytesLeftError int                    \<comment> \<open>\<^verbatim>\<open>error: %d bytes left after sending\<close>\<close>
  | BadWrite int int                      \<comment> \<open>\<^verbatim>\<open>bad write (%d/%d)\<close>\<close>
  | ConnError string                      \<comment> \<open>the error of \<^verbatim>\<open>conn.Write\<close>, passed on\<close>
  | LibError string                       \<comment> \<open>an error of encoding/json or compress/*, passed on\<close>
  | MarshalerError goerror                \<comment> \<open>\<^verbatim>\<open>*json.MarshalerError\<close>, around the error it reports\<close>

datatype gopanic =
    IndexOutOfRange               \<comment> \<open>\<^verbatim>\<open>s[i]\<close> with \<^verbatim>\<open>i\<close> outside \<^verbatim>\<open>s\<close>\<close>
  | SliceBoundsOutOfRange         \<comment> \<open>\<^verbatim>\<open>s[lo:hi]\<close> outside \<^verbatim>\<open>s\<close>\<close>
  | TypeAssertionFailed string    \<comment> \<open>\<^verbatim>\<open>v.(T)\<close> on a value of another type; the key read\<close>
  | NilPointerDereference
  | UnknownCompressionType int    \<comment> \<open>the \<^verbatim>\<open>panic\<close> of \<^verbatim>\<open>WriteMessage\<close>\<close>

datatype fault = Error goerror | Panic gopanic

subsection \<open>The connection and the random source\<close>

text \<open>
  \<open>writes\<close> holds every buffer handed to \<^verbatim>\<open>conn.Write\<close>, in call order (one call is one
  datagram); \<open>draws\<close> counts the reads of \<^verbatim>\<open>rand.Reader\<close>; \<open>built\<close> counts the calls of
  \<^verbatim>\<open>gzip.NewWriterLevel\<close> and \<^verbatim>\<open>zlib.NewWriterLevel\<close>, each of which constructs a compressor.
\<close>

record env =
  writes :: "bytes list"
  draws :: nat
  built :: nat

text \<open>
  The outside world answers each call: \<open>conn_Write k buf\<close> is the \<^verbatim>\<open>(n, err)\<close> that
  \<^verbatim>\<open>conn.Write(buf)\<close> returns when \<open>k\<close> calls came before it, and \<open>rand_ReadFull k\<close> is
  the bytes read, \<^verbatim>\<open>n\<close> and \<^verbatim>\<open>err\<close> of the \<open>k\<close>-th \<^verbatim>\<open>io.ReadFull(rand.Reader, msgId)\<close>.
\<close>

record outside =
  conn_Write :: "nat \<Rightarrow> bytes \<Rightarrow> int \<times> string option"
  rand_ReadFull :: "nat \<Rightarrow> bytes \<times> int \<times> string option"

subsection \<open>Chunk arithmetic (lines 76--96)\<close>

definition ChunkSize :: int where
  "ChunkSize = 1420"

definition chunkedHeaderLen :: int where
  "chunkedHeaderLen = 12"

definition chunkedDataLen :: int where
  "chunkedDataLen = ChunkSize - chunkedHeaderLen"

definition magicChunked :: bytes where
  "magicChunked = [0x1e, 0x0f]"

definition numChunks :: "bytes \<Rightarrow> int" where
  "numChunks b =
     (let lenB = int (length b) in
      if lenB \<le> ChunkSize then 1
      else int (length b) div chunkedDataLen + 1)"

subsection \<open>The chunked send (lines 144--196)\<close>

text \<open>
  The slice expression \<^verbatim>\<open>b[lo:hi]\<close>. Go checks \<^verbatim>\<open>hi\<close> against the capacity of \<^verbatim>\<open>b\<close>;
  the model checks it against the length, so it panics wherever Go does and also where
  Go would read bytes past the length. Lemma \<open>chunkLoop_run\<close> shows that the loop
  never leaves the length.
\<close>

definition goSlice :: "bytes \<Rightarrow> int \<Rightarrow> int \<Rightarrow> fault + bytes" where
  "goSlice b lo hi =
     (if 0 \<le> lo \<and> lo \<le> hi \<and> hi \<le> int (length b)
      then Inr (take (nat (hi - lo)) (drop (nat lo) b))
      else Inl (Panic SliceBoundsOutOfRange))"

text \<open>
  One pass through the body of the loop (lines 161--189), for the index \<open>i\<close> and the
  \<^verbatim>\<open>bytesLeft\<close> it starts with: the header and the slice go into \<^verbatim>\<open>buf\<close>, \<^verbatim>\<open>buf\<close> goes to
  the connection, and the answer is checked. It returns the new \<^verbatim>\<open>bytesLeft\<close>, or the
  fault that ends the send.
\<close>

definition sendChunk ::
  "outside \<Rightarrow> bytes \<Rightarrow> bytes \<Rightarrow> byte \<Rightarrow> byte \<Rightarrow> int \<Rightarrow> env \<Rightarrow> (fault + int) \<times> env"
where
  "sendChunk out zBytes msgId nChunks i bytesLeft e =
     (let chunkLen = (if chunkedDataLen > bytesLeft then bytesLeft else chunkedDataLen);
          off = uint i * chunkedDataLen
      in case goSlice zBytes off (off + chunkLen) of
           Inl p \<Rightarrow> (Inl p, e)
         | Inr chunk \<Rightarrow>
             (let buf = magicChunked @ msgId @ [i] @ [nChunks] @ chunk;
                  (n, err) = conn_Write out (length (writes e)) buf;
                  e' = e\<lparr>writes := writes e @ [buf]\<rparr>
              in case err of
                   Some s \<Rightarrow> (Inl (Error (WriteChunkError i nChunks s)), e')
                 | None \<Rightarrow>
                     if n \<noteq> int (length buf)
                     then (Inl (Error (WriteLenError i nChunks n (int (length buf)))), e')
                     else (Inr (bytesLeft - chunkLen), e')))"

text \<open>
  The loop \<^verbatim>\<open>for i := uint8(0); i < nChunks; i++\<close> from the state \<open>(i, bytesLeft)\<close>:
  it returns the final \<^verbatim>\<open>bytesLeft\<close>, or the fault that ended it.
\<close>

function chunkLoop ::
  "outside \<Rightarrow> bytes \<Rightarrow> bytes \<Rightarrow> byte \<Rightarrow> byte \<Rightarrow> int \<Rightarrow> env \<Rightarrow> (fault + int) \<times> env"
where
  "chunkLoop out zBytes msgId nChunks i bytesLeft e =
     (if i < nChunks then
        (case sendChunk out zBytes msgId nChunks i bytesLeft e of
           (Inl f, e') \<Rightarrow> (Inl f, e')
         | (Inr bytesLeft', e') \<Rightarrow> chunkLoop out zBytes msgId nChunks (i + 1) bytesLeft' e')
      else (Inr bytesLeft, e))"
  by pat_completeness auto
termination
proof (relation "measure (\<lambda>(out, zBytes, msgId, nChunks, i, bytesLeft, e). unat nChunks - unat i)",
    goal_cases)
  case 1
  show ?case by simp
next
  case (2 out zBytes msgId nChunks i bytesLeft)
  then have "unat i < unat nChunks"
    by (simp add: word_less_nat_alt)
  moreover have "unat nChunks < 256"
    using unsigned_less [of nChunks, where 'a = nat] by simp
  ultimately show ?case
    by (simp add: unat_word_ariths)
qed

declare chunkLoop.simps [simp del]

text \<open>
  \<^verbatim>\<open>io.ReadFull(rand.Reader, msgId)\<close> fills the 8 zero bytes of \<^verbatim>\<open>make([]byte, 8)\<close> from the
  front with the bytes it read.
\<close>

definition fill8 :: "bytes \<Rightarrow> bytes" where
  "fill8 bs = take 8 (bs @ replicate 8 0)"

definition writeChunked :: "outside \<Rightarrow> bytes \<Rightarrow> env \<Rightarrow> (fault + unit) \<times> env" where
  "writeChunked out zBytes e =
     (let nChunksI = numChunks zBytes in
      if nChunksI > 255 then (Inl (Error (MsgTooLarge nChunksI)), e)
      else
        (let nChunks = (word_of_int nChunksI :: byte);
             (bs, n, err) = rand_ReadFull out (draws e);
             msgId = fill8 bs;
             e1 = e\<lparr>draws := Suc (draws e)\<rparr>
         in if err \<noteq> None \<or> n \<noteq> 8 then (Inl (Error (RandReaderError n err)), e1)
            else
              (case chunkLoop out zBytes msgId nChunks 0 (int (length zBytes)) e1 of
                 (Inl f, e2) \<Rightarrow> (Inl f, e2)
               | (Inr bytesLeft, e2) \<Rightarrow>
                   if bytesLeft \<noteq> 0 then (Inl (Error (BytesLeftError bytesLeft)), e2)
                   else (Inr (), e2))))"


subsection \<open>Values, messages and the libraries (lines 45--70)\<close>

text \<open>
  A \<^verbatim>\<open>float64\<close> is a rational or one of the three special values. Every finite
  \<^verbatim>\<open>float64\<close> is a rational, so what holds for all values of this type holds for all
  finite \<^verbatim>\<open>float64\<close>s. The sign of zero is not modelled; no conversion of this file
  reads it.
\<close>

datatype float64 = Finite rat | PosInf | NegInf | NaN

text \<open>
  The values an \<^verbatim>\<open>interface{}\<close> holds here: what \<^verbatim>\<open>json.Unmarshal\<close> stores into a
  \<^verbatim>\<open>map[string]interface{}\<close> (\<^verbatim>\<open>nil\<close>, \<^verbatim>\<open>bool\<close>, \<^verbatim>\<open>float64\<close>, \<^verbatim>\<open>string\<close>,
  \<^verbatim>\<open>[]interface{}\<close>, \<^verbatim>\<open>map[string]interface{}\<close>), and Go integers, which a caller may
  put into \<^verbatim>\<open>Extra\<close> and which the struct fields \<^verbatim>\<open>Level\<close> and \<^verbatim>\<open>Line\<close> hold. A Go map
  is the list of its entries, the keys distinct.
\<close>

datatype govalue =
    GNil
  | GBool bool
  | GFloat64 float64
  | GString string
  | GInt int
  | GSlice "govalue list"
  | GMap "(string \<times> govalue) list"

text \<open>
  The struct \<^verbatim>\<open>Message\<close>. \<^verbatim>\<open>Level\<close> is an \<^verbatim>\<open>int32\<close> and \<^verbatim>\<open>Line\<close> an \<^verbatim>\<open>int\<close> (64 bits),
  both read by \<open>sint\<close>; \<^verbatim>\<open>Extra\<close> is \<open>None\<close> when the map is \<^verbatim>\<open>nil\<close>.
\<close>

record Message =
  Version :: string
  Host :: string
  Short :: string
  Full :: string
  TimeUnix :: float64
  Level :: "32 word"
  Facility :: string
  File :: string
  Line :: "64 word"
  Extra :: "(string \<times> govalue) list option"

definition CompressGzip :: int where
  "CompressGzip = 0"

definition CompressZlib :: int where
  "CompressZlib = 1"

definition NoCompress :: int where
  "NoCompress = 2"

text \<open>
  What the interface \<^verbatim>\<open>writerCloserResetter\<close> holds when it is not \<^verbatim>\<open>nil\<close>: a
  \<^verbatim>\<open>*gzip.Writer\<close> or a \<^verbatim>\<open>*zlib.Writer\<close> built with a level, a \<^verbatim>\<open>*bufferedWriter\<close>, or
  the \<^verbatim>\<open>nil\<close> pointer that \<^verbatim>\<open>NewWriterLevel\<close> returns beside an error (an interface
  holding a \<^verbatim>\<open>nil\<close> pointer is not \<^verbatim>\<open>nil\<close>).
\<close>

datatype zwriter = GzipWriter int | ZlibWriter int | BufferedWriter | NilWriter

text \<open>
  The fields of \<^verbatim>\<open>UDPWriter\<close> that \<^verbatim>\<open>WriteMessage\<close> reads or writes. The mutex is left
  out (calls are modelled one after the other), the connection is the \<open>env\<close>, and
  \<^verbatim>\<open>hostname\<close> and \<^verbatim>\<open>Facility\<close> are only read by \<^verbatim>\<open>Write\<close>.
\<close>

record UDPWriter =
  CompressionLevel :: int
  CompressionType :: int
  zw :: "zwriter option"
  zwCompressionLevel :: int
  zwCompressionType :: int

text \<open>
  The library functions the file calls, as parameters.
  \<^item> \<open>json_key\<close> and \<open>json_value\<close>: how encoding/json writes an object key and a value;
    a value it cannot write is an error.
  \<^item> \<open>json_compact\<close>: what \<^verbatim>\<open>json.Marshal\<close> does with the bytes a \<^verbatim>\<open>MarshalJSON\<close> method
    returned (it checks and compacts them).
  \<^item> \<open>json_Unmarshal\<close>: \<^verbatim>\<open>json.Unmarshal\<close> into a \<^verbatim>\<open>map[string]interface{}\<close>; the
    entries come in the order in which \<^verbatim>\<open>range\<close> will visit them.
  \<^item> \<open>NewWriterLevel t l\<close>: the error of \<^verbatim>\<open>gzip.NewWriterLevel\<close> (\<open>t = CompressGzip\<close>) or
    \<^verbatim>\<open>zlib.NewWriterLevel\<close> for the level \<open>l\<close>, if any.
  \<^item> \<open>deflate z b\<close>: the error of \<^verbatim>\<open>Write(b)\<close> on the compressor \<open>z\<close> after \<^verbatim>\<open>Reset\<close>, or
    the bytes the buffer holds after \<^verbatim>\<open>Write\<close> and \<^verbatim>\<open>Close\<close>.
  \<^item> \<open>conv_int32\<close>, \<open>conv_int\<close>: the result of \<^verbatim>\<open>int32(f)\<close> and \<^verbatim>\<open>int(f)\<close> where the Go
    specification leaves it to the implementation (\<open>f\<close> not finite, or out of range).
\<close>

record libs =
  json_key :: "string \<Rightarrow> bytes"
  json_value :: "govalue \<Rightarrow> goerror + bytes"
  json_compact :: "bytes \<Rightarrow> goerror + bytes"
  json_Unmarshal :: "bytes \<Rightarrow> goerror + (string \<times> govalue) list"
  NewWriterLevel :: "int \<Rightarrow> int \<Rightarrow> goerror option"
  deflate :: "zwriter \<Rightarrow> bytes \<Rightarrow> goerror + bytes"
  conv_int32 :: "float64 \<Rightarrow> 32 word"
  conv_int :: "float64 \<Rightarrow> 64 word"

subsection \<open>Encoding a message (lines 330--352)\<close>

text \<open>
  The layout of an object in the output of \<^verbatim>\<open>json.Marshal\<close>, as the documentation of
  encoding/json has it: \<^verbatim>\<open>{\<close>, the members \<^verbatim>\<open>key:value\<close> separated by \<^verbatim>\<open>,\<close>, and \<^verbatim>\<open>}\<close>,
  with no white space; the fields of a struct in the order of their declaration, the
  keys of a map sorted; the first value it cannot write is the error of the whole. How
  a key and a value are written is left to the parameters \<open>json_key\<close> and \<open>json_value\<close>.
\<close>

definition jsonMember :: "libs \<Rightarrow> string \<times> govalue \<Rightarrow> goerror + bytes" where
  "jsonMember lib kv =
     (case json_value lib (snd kv) of
        Inl err \<Rightarrow> Inl err
      | Inr b \<Rightarrow> Inr (json_key lib (fst kv) @ [0x3A] @ b))"

fun jsonMembers :: "libs \<Rightarrow> (string \<times> govalue) list \<Rightarrow> goerror + bytes list" where
  "jsonMembers lib [] = Inr []"
| "jsonMembers lib (kv # kvs) =
     (case jsonMember lib kv of
        Inl err \<Rightarrow> Inl err
      | Inr b \<Rightarrow>
          (case jsonMembers lib kvs of
             Inl err \<Rightarrow> Inl err
           | Inr bs \<Rightarrow> Inr (b # bs)))"

fun joinComma :: "bytes list \<Rightarrow> bytes" where
  "joinComma [] = []"
| "joinComma [b] = b"
| "joinComma (b # bs) = b @ [0x2C] @ joinComma bs"

definition jsonObject :: "libs \<Rightarrow> (string \<times> govalue) list \<Rightarrow> goerror + bytes" where
  "jsonObject lib kvs =
     (case jsonMembers lib kvs of
        Inl err \<Rightarrow> Inl err
      | Inr bs \<Rightarrow> Inr ([0x7B] @ joinComma bs @ [0x7D]))"

text \<open>
  The fields of the struct under their \<^verbatim>\<open>json\<close> tags, in the order of declaration
  (lines 58--67). No tag has \<^verbatim>\<open>omitempty\<close>; \<^verbatim>\<open>Extra\<close> has the tag \<^verbatim>\<open>-\<close> and is skipped.
\<close>

definition structFields :: "Message \<Rightarrow> (string \<times> govalue) list" where
  "structFields m =
     [(''version'', GString (Version m)),
      (''host'', GString (Host m)),
      (''short_message'', GString (Short m)),
      (''full_message'', GString (Full m)),
      (''timestamp'', GFloat64 (TimeUnix m)),
      (''level'', GInt (sint (Level m))),
      (''facility'', GString (Facility m)),
      (''file'', GString (File m)),
      (''line'', GInt (sint (Line m)))]"

text \<open>\<^verbatim>\<open>json.Marshal((*innerMessage)(m))\<close>: the struct, without the method \<^verbatim>\<open>MarshalJSON\<close>.\<close>

definition json_Marshal_inner :: "libs \<Rightarrow> Message \<Rightarrow> goerror + bytes" where
  "json_Marshal_inner lib m = jsonObject lib (structFields m)"

text \<open>\<^verbatim>\<open>json.Marshal(extra)\<close>: a \<^verbatim>\<open>nil\<close> map is \<^verbatim>\<open>null\<close>, any other an object with its keys
  sorted.\<close>

definition json_Marshal_map :: "libs \<Rightarrow> (string \<times> govalue) list option \<Rightarrow> goerror + bytes" where
  "json_Marshal_map lib extra =
     (case extra of
        None \<Rightarrow> Inr [0x6E, 0x75, 0x6C, 0x6C]
      | Some kvs \<Rightarrow> jsonObject lib (sort_key fst kvs))"

text \<open>\<^verbatim>\<open>len(extra)\<close>, which is 0 for a \<^verbatim>\<open>nil\<close> map.\<close>

definition len_map :: "(string \<times> govalue) list option \<Rightarrow> int" where
  "len_map extra = (case extra of None \<Rightarrow> 0 | Some kvs \<Rightarrow> int (length kvs))"

definition MarshalJSON :: "libs \<Rightarrow> Message \<Rightarrow> fault + bytes" where
  "MarshalJSON lib m =
     (let extra = Extra m in
      case json_Marshal_inner lib m of
        Inl err \<Rightarrow> Inl (Error err)
      | Inr b \<Rightarrow>
          if len_map extra = 0 then Inr b
          else
            (case json_Marshal_map lib extra of
               Inl err \<Rightarrow> Inl (Error err)
             | Inr eb \<Rightarrow>
                 if b = [] then Inl (Panic IndexOutOfRange)
                 else
                   (case goSlice eb 1 (int (length eb)) of
                      Inl p \<Rightarrow> Inl p
                    | Inr tl_eb \<Rightarrow> Inr (b[length b - 1 := 0x2C] @ tl_eb))))"

text \<open>
  \<^verbatim>\<open>json.Marshal(m)\<close> for a \<^verbatim>\<open>*Message\<close> (line 227): the method, then the library's check
  of what it returned. The library reports an error of the method, and an error of its
  own check, inside a \<^verbatim>\<open>*json.MarshalerError\<close>; a run-time panic of the method is not
  caught.
\<close>

definition json_Marshal :: "libs \<Rightarrow> Message \<Rightarrow> fault + bytes" where
  "json_Marshal lib m =
     (case MarshalJSON lib m of
        Inl (Error err) \<Rightarrow> Inl (Error (MarshalerError err))
      | Inl (Panic p) \<Rightarrow> Inl (Panic p)
      | Inr b \<Rightarrow>
          (case json_compact lib b of
             Inl err \<Rightarrow> Inl (Error (MarshalerError err))
           | Inr b' \<Rightarrow> Inr b'))"

subsection \<open>Decoding a message (lines 354--389)\<close>

text \<open>
  \<^verbatim>\<open>int32(f)\<close> and \<^verbatim>\<open>int(f)\<close> drop the fraction of \<open>f\<close>; where the result does not fit,
  the value is the implementation's.
\<close>

definition truncToZero :: "rat \<Rightarrow> int" where
  "truncToZero r = (if 0 \<le> r then \<lfloor>r\<rfloor> else \<lceil>r\<rceil>)"

definition int32_of_float64 :: "libs \<Rightarrow> float64 \<Rightarrow> 32 word" where
  "int32_of_float64 lib f =
     (case f of
        Finite r \<Rightarrow>
          if - (2 ^ 31) \<le> truncToZero r \<and> truncToZero r < 2 ^ 31 then word_of_int (truncToZero r)
          else conv_int32 lib f
      | _ \<Rightarrow> conv_int32 lib f)"

definition int_of_float64 :: "libs \<Rightarrow> float64 \<Rightarrow> 64 word" where
  "int_of_float64 lib f =
     (case f of
        Finite r \<Rightarrow>
          if - (2 ^ 63) \<le> truncToZero r \<and> truncToZero r < 2 ^ 63 then word_of_int (truncToZero r)
          else conv_int lib f
      | _ \<Rightarrow> conv_int lib f)"

text \<open>The type assertions \<^verbatim>\<open>v.(string)\<close> and \<^verbatim>\<open>v.(float64)\<close>, for the key \<open>k\<close> being read.\<close>

definition assertString :: "string \<Rightarrow> govalue \<Rightarrow> fault + string" where
  "assertString k v = (case v of GString s \<Rightarrow> Inr s | _ \<Rightarrow> Inl (Panic (TypeAssertionFailed k)))"

definition assertFloat64 :: "string \<Rightarrow> govalue \<Rightarrow> fault + float64" where
  "assertFloat64 k v = (case v of GFloat64 f \<Rightarrow> Inr f | _ \<Rightarrow> Inl (Panic (TypeAssertionFailed k)))"

text \<open>
  The body of the \<^verbatim>\<open>range\<close> loop for one entry (lines 360--386). \<^verbatim>\<open>k[0]\<close> panics for
  the empty key and is \<open>hd k\<close> for every other.
\<close>

definition setField :: "libs \<Rightarrow> Message \<Rightarrow> string \<Rightarrow> govalue \<Rightarrow> fault + Message" where
  "setField lib m k v =
     (if k = [] then Inl (Panic IndexOutOfRange)
      else if hd k = CHR ''_'' then
        Inr (m\<lparr>Extra := Some (AList.update k v (case Extra m of None \<Rightarrow> [] | Some kvs \<Rightarrow> kvs))\<rparr>)
      else if k = ''version'' then map_sum id (\<lambda>s. m\<lparr>Version := s\<rparr>) (assertString k v)
      else if k = ''host'' then map_sum id (\<lambda>s. m\<lparr>Host := s\<rparr>) (assertString k v)
      else if k = ''short_message'' then map_sum id (\<lambda>s. m\<lparr>Short := s\<rparr>) (assertString k v)
      else if k = ''full_message'' then map_sum id (\<lambda>s. m\<lparr>Full := s\<rparr>) (assertString k v)
      else if k = ''timestamp'' then map_sum id (\<lambda>f. m\<lparr>TimeUnix := f\<rparr>) (assertFloat64 k v)
      else if k = ''level'' then
        map_sum id (\<lambda>f. m\<lparr>Level := int32_of_float64 lib f\<rparr>) (assertFloat64 k v)
      else if k = ''facility'' then map_sum id (\<lambda>s. m\<lparr>Facility := s\<rparr>) (assertString k v)
      else if k = ''file'' then map_sum id (\<lambda>s. m\<lparr>File := s\<rparr>) (assertString k v)
      else if k = ''line'' then
        map_sum id (\<lambda>f. m\<lparr>Line := int_of_float64 lib f\<rparr>) (assertFloat64 k v)
      else Inr m)"

text \<open>The loop \<^verbatim>\<open>for k, v := range i\<close> over the entries, in the order of the visit.\<close>

fun rangeLoop :: "libs \<Rightarrow> Message \<Rightarrow> (string \<times> govalue) list \<Rightarrow> fault + Message" where
  "rangeLoop lib m [] = Inr m"
| "rangeLoop lib m ((k, v) # kvs) =
     (case setField lib m k v of
        Inl f \<Rightarrow> Inl f
      | Inr m' \<Rightarrow> rangeLoop lib m' kvs)"

definition UnmarshalJSON :: "libs \<Rightarrow> Message \<Rightarrow> bytes \<Rightarrow> fault + Message" where
  "UnmarshalJSON lib m data =
     (case json_Unmarshal lib data of
        Inl err \<Rightarrow> Inl (Error err)
      | Inr i \<Rightarrow> rangeLoop lib m i)"

subsection \<open>Sending a message (lines 198--280)\<close>

text \<open>
  The writer that \<^verbatim>\<open>newUDPWriter\<close> returns (lines 121--136): \<^verbatim>\<open>new(UDPWriter)\<close> with
  every field zero, and \<^verbatim>\<open>CompressionLevel\<close> set to \<^verbatim>\<open>flate.BestSpeed\<close>, which is 1. The
  zero \<^verbatim>\<open>CompressType\<close> is \<^verbatim>\<open>CompressGzip\<close>.
\<close>

definition newUDPWriter :: UDPWriter where
  "newUDPWriter =
     \<lparr>CompressionLevel = 1, CompressionType = 0, zw = None,
      zwCompressionLevel = 0, zwCompressionType = 0\<rparr>"

text \<open>Lines 234--237: the cached settings are compared with the configured ones.\<close>

definition dropStale :: "UDPWriter \<Rightarrow> UDPWriter" where
  "dropStale w =
     (if zwCompressionType w \<noteq> CompressionType w \<or> zwCompressionLevel w \<noteq> CompressionLevel w
      then w\<lparr>zw := None\<rparr> else w)"

text \<open>
  \<^verbatim>\<open>w.zw, err = gzip.NewWriterLevel(&zBuf, w.CompressionLevel)\<close> and its zlib twin: one
  more compressor is constructed; on an error the interface holds the \<^verbatim>\<open>nil\<close> pointer.
\<close>

definition newWriter ::
  "libs \<Rightarrow> (int \<Rightarrow> zwriter) \<Rightarrow> UDPWriter \<Rightarrow> env \<Rightarrow> fault option \<times> UDPWriter \<times> env"
where
  "newWriter lib mk w e =
     (case NewWriterLevel lib (CompressionType w) (CompressionLevel w) of
        None \<Rightarrow> (None, w\<lparr>zw := Some (mk (CompressionLevel w))\<rparr>, e\<lparr>built := Suc (built e)\<rparr>)
      | Some err \<Rightarrow> (Some (Error err), w\<lparr>zw := Some NilWriter\<rparr>, e\<lparr>built := Suc (built e)\<rparr>))"

text \<open>Lines 239--253: the \<^verbatim>\<open>switch\<close> on the compression type.\<close>

definition obtainWriter :: "libs \<Rightarrow> UDPWriter \<Rightarrow> env \<Rightarrow> fault option \<times> UDPWriter \<times> env" where
  "obtainWriter lib w e =
     (if CompressionType w = CompressGzip then
        (if zw w = None then newWriter lib GzipWriter w e else (None, w, e))
      else if CompressionType w = CompressZlib then
        (if zw w = None then newWriter lib ZlibWriter w e else (None, w, e))
      else if CompressionType w = NoCompress then (None, w\<lparr>zw := Some BufferedWriter\<rparr>, e)
      else (Some (Panic (UnknownCompressionType (CompressionType w))), w, e))"

text \<open>
  Lines 259--266: \<^verbatim>\<open>Reset\<close>, \<^verbatim>\<open>Write\<close> and \<^verbatim>\<open>Close\<close> on the compressor, and the bytes of the
  buffer. A \<^verbatim>\<open>bufferedWriter\<close> (lines 198--212) hands the bytes on unchanged; \<^verbatim>\<open>Reset\<close> on
  a \<^verbatim>\<open>nil\<close> interface or a \<^verbatim>\<open>nil\<close> pointer panics.
\<close>

definition compress :: "libs \<Rightarrow> zwriter option \<Rightarrow> bytes \<Rightarrow> fault + bytes" where
  "compress lib z mBytes =
     (case z of
        None \<Rightarrow> Inl (Panic NilPointerDereference)
      | Some NilWriter \<Rightarrow> Inl (Panic NilPointerDereference)
      | Some BufferedWriter \<Rightarrow> Inr mBytes
      | Some c \<Rightarrow> (case deflate lib c mBytes of Inl err \<Rightarrow> Inl (Error err) | Inr zBytes \<Rightarrow> Inr zBytes))"

text \<open>Lines 266--279: the compressed bytes go out in chunks or as one datagram.\<close>

definition sendBytes :: "outside \<Rightarrow> bytes \<Rightarrow> env \<Rightarrow> (fault + unit) \<times> env" where
  "sendBytes out zBytes e =
     (if numChunks zBytes > 1 then writeChunked out zBytes e
      else
        (let (n, err) = conn_Write out (length (writes e)) zBytes;
             e' = e\<lparr>writes := writes e @ [zBytes]\<rparr>
         in case err of
              Some s \<Rightarrow> (Inl (Error (ConnError s)), e')
            | None \<Rightarrow>
                if n \<noteq> int (length zBytes)
                then (Inl (Error (BadWrite n (int (length zBytes)))), e')
                else (Inr (), e')))"

text \<open>Lines 223--257 and 259--266: the bytes to send, with the writer as the call leaves it.\<close>

definition prepare ::
  "libs \<Rightarrow> UDPWriter \<Rightarrow> Message \<Rightarrow> env \<Rightarrow> (fault + bytes) \<times> UDPWriter \<times> env"
where
  "prepare lib w m e =
     (case json_Marshal lib m of
        Inl f \<Rightarrow> (Inl f, w, e)
      | Inr mBytes \<Rightarrow>
          (case obtainWriter lib (dropStale w) e of
             (Some f, w', e') \<Rightarrow> (Inl f, w', e')
           | (None, w', e') \<Rightarrow> (compress lib (zw w') mBytes, w', e')))"

definition WriteMessage ::
  "libs \<Rightarrow> outside \<Rightarrow> UDPWriter \<Rightarrow> Message \<Rightarrow> env \<Rightarrow> (fault + unit) \<times> UDPWriter \<times> env"
where
  "WriteMessage lib out w m e =
     (case prepare lib w m e of
        (Inl f, w', e') \<Rightarrow> (Inl f, w', e')
      | (Inr zBytes, w', e') \<Rightarrow> (let (r, e'') = sendBytes out zBytes e' in (r, w', e'')))"

subsection \<open>Notions used in the statements and proofs\<close>

text \<open>
  The datagram that chunk \<open>k\<close> of a buffer should be: the header with the identifier, the
  index and the count, and the \<open>k\<close>-th run of 1408 bytes of the buffer.
\<close>

definition chunkFrame :: "bytes \<Rightarrow> byte \<Rightarrow> bytes \<Rightarrow> nat \<Rightarrow> bytes" where
  "chunkFrame msgId nChunks zBytes k =
     magicChunked @ msgId @ [of_nat k] @ [nChunks] @ take 1408 (drop (k * 1408) zBytes)"

text \<open>The value of \<^verbatim>\<open>bytesLeft\<close> when the loop reaches the index \<open>k\<close>.\<close>

definition leftAfter :: "bytes \<Rightarrow> nat \<Rightarrow> int" where
  "leftAfter zBytes k = max 0 (int (length zBytes) - int k * 1408)"

text \<open>The error the loop returns for the answer \<open>a\<close> of the connection, when \<open>a\<close> is not
  a full write.\<close>

definition writeFault :: "byte \<Rightarrow> byte \<Rightarrow> int \<times> string option \<Rightarrow> int \<Rightarrow> goerror" where
  "writeFault i n a len =
     (case a of (c, Some s) \<Rightarrow> WriteChunkError i n s | (c, None) \<Rightarrow> WriteLenError i n c len)"

text \<open>The entries of a map that may be \<^verbatim>\<open>nil\<close>.\<close>

definition entries :: "(string \<times> govalue) list option \<Rightarrow> (string \<times> govalue) list" where
  "entries extra = (case extra of None \<Rightarrow> [] | Some kvs \<Rightarrow> kvs)"

text \<open>
  The one object a message is written as: the fields of the struct, then the entries of
  \<^verbatim>\<open>Extra\<close> in the order of their keys, each under its own key.
\<close>

definition flatObject :: "Message \<Rightarrow> (string \<times> govalue) list" where
  "flatObject m = structFields m @ sort_key fst (entries (Extra m))"


text \<open>
  The \<^verbatim>\<open>float64\<close> that encoding/json stores for the digits of an integer when it
  reads a number into an \<^verbatim>\<open>interface{}\<close>: the nearest one, which keeps 53 bits of the
  integer, a tie going to the even neighbour. \<open>shift53 n\<close> is the number of bits that
  are dropped. An integer up to \<open>2 ^ 53\<close> in size is kept as it is. (No Go integer is
  large enough to become infinite.)
\<close>

function shift53 :: "int \<Rightarrow> nat" where
  "shift53 n = (if n < 2 ^ 53 then 0 else Suc (shift53 (n div 2)))"
  by pat_completeness auto
termination
  by (relation "measure nat") auto

declare shift53.simps [simp del]

definition nearest53 :: "int \<Rightarrow> int" where
  "nearest53 n =
     (let s = shift53 n; q = n div 2 ^ s; r = n mod 2 ^ s in
      if 2 * r < 2 ^ s \<or> (2 * r = 2 ^ s \<and> even q) then q * 2 ^ s else (q + 1) * 2 ^ s)"

definition float64_of_int :: "int \<Rightarrow> float64" where
  "float64_of_int n = Finite (of_int (if n < 0 then - nearest53 (- n) else nearest53 n))"

text \<open>
  A value as it comes back from its JSON text when the text is read into an
  \<^verbatim>\<open>interface{}\<close>: a Go integer comes back as a \<^verbatim>\<open>float64\<close>, also inside a slice or a
  map; \<^verbatim>\<open>nil\<close>, a \<^verbatim>\<open>bool\<close>, a \<^verbatim>\<open>float64\<close> and a \<^verbatim>\<open>string\<close> come back as they are. The
  values \<open>v\<close> with \<open>generic v = v\<close> are those that hold no Go integer.
\<close>

fun generic :: "govalue \<Rightarrow> govalue" where
  "generic (GInt n) = GFloat64 (float64_of_int n)"
| "generic (GSlice vs) = GSlice (map generic vs)"
| "generic (GMap kvs) = GMap (map (\<lambda>(k, v). (k, generic v)) kvs)"
| "generic v = v"

text \<open>
  \<open>readsBack lib obj\<close>: the library reads back what it writes for the object with the
  members \<open>obj\<close>. If \<^verbatim>\<open>json.Marshal\<close> writes the object, then \<^verbatim>\<open>json.Unmarshal\<close> of these
  bytes into a \<^verbatim>\<open>map[string]interface{}\<close> is a map that has, under every key, the value
  that \<open>obj\<close> has there, as \<open>generic\<close> gives it, and no other key. This is a property of
  encoding/json alone; neither method of \<^verbatim>\<open>Message\<close> occurs in it.
\<close>

definition readsBack :: "libs \<Rightarrow> (string \<times> govalue) list \<Rightarrow> bool" where
  "readsBack lib obj =
     (case jsonObject lib obj of
        Inl err \<Rightarrow> True
      | Inr text \<Rightarrow>
          (case json_Unmarshal lib text of
             Inl err \<Rightarrow> False
           | Inr kvs \<Rightarrow>
               distinct (map fst kvs) \<and>
               (\<forall>k \<in> set (map fst kvs @ map fst obj).
                  map_of kvs k = map_option generic (map_of obj k))))"

text \<open>
  The keys that \<^verbatim>\<open>UnmarshalJSON\<close> reads with \<^verbatim>\<open>v.(string)\<close> and with \<^verbatim>\<open>v.(float64)\<close>, and
  the entries whose type assertion, if there is one, succeeds.
\<close>

definition stringKeys :: "string list" where
  "stringKeys = [''version'', ''host'', ''short_message'', ''full_message'', ''facility'', ''file'']"

definition numberKeys :: "string list" where
  "numberKeys = [''timestamp'', ''level'', ''line'']"

definition wellTyped :: "string \<Rightarrow> govalue \<Rightarrow> bool" where
  "wellTyped k v =
     ((k \<in> set stringKeys \<longrightarrow> (case v of GString s \<Rightarrow> True | _ \<Rightarrow> False)) \<and>
      (k \<in> set numberKeys \<longrightarrow> (case v of GFloat64 f \<Rightarrow> True | _ \<Rightarrow> False)))"



subsection \<open>A small library and an outside world, to run the model\<close>

text \<open>
  The theorems below hold for every library and every outside world. To run the model
  on concrete messages, here is one instance of each. The library writes strings
  between quotes without escapes, integers in decimal, and reads back objects of such
  members (a subset of what encoding/json does); it returns the entries in the order of
  the text, one of the orders in which Go may visit the map. Its compressors put the
  first bytes of a gzip or zlib stream in front of the input and leave the input as it
  is. Out of range, \<^verbatim>\<open>int32(f)\<close> and \<^verbatim>\<open>int(f)\<close> give the smallest integer, as amd64 does.
\<close>

definition quoteBytes :: "string \<Rightarrow> bytes" where
  "quoteBytes s = [0x22] @ map of_char s @ [0x22]"

function showDigits :: "int \<Rightarrow> bytes" where
  "showDigits n =
     (if n < 10 then [of_int (48 + n)] else showDigits (n div 10) @ [of_int (48 + n mod 10)])"
  by pat_completeness auto
termination
  by (relation "measure nat") auto

declare showDigits.simps [simp del]

definition showInt :: "int \<Rightarrow> bytes" where
  "showInt n = (if n < 0 then [0x2D] @ showDigits (- n) else showDigits n)"

fun showValue :: "govalue \<Rightarrow> goerror + bytes" where
  "showValue (GString s) = Inr (quoteBytes s)"
| "showValue (GInt n) = Inr (showInt n)"
| "showValue (GFloat64 (Finite r)) =
     (if r = of_int \<lfloor>r\<rfloor> then Inr (showInt \<lfloor>r\<rfloor>) else Inl (LibError ''unsupported value''))"
| "showValue GNil = Inr (map of_char ''null'')"
| "showValue (GBool b) = Inr (map of_char (if b then ''true'' else ''false''))"
| "showValue v = Inl (LibError ''unsupported value'')"

fun untilQuote :: "string \<Rightarrow> (string \<times> string) option" where
  "untilQuote [] = None"
| "untilQuote (c # cs) =
     (if c = CHR 0x22 then Some ([], cs)
      else (case untilQuote cs of None \<Rightarrow> None | Some (s, r) \<Rightarrow> Some (c # s, r)))"

definition isDigit :: "char \<Rightarrow> bool" where
  "isDigit c = (48 \<le> (of_char c :: nat) \<and> (of_char c :: nat) \<le> 57)"

fun readDigits :: "string \<Rightarrow> int \<Rightarrow> int \<times> string" where
  "readDigits [] acc = (acc, [])"
| "readDigits (c # cs) acc =
     (if isDigit c then readDigits cs (10 * acc + (of_char c - 48)) else (acc, c # cs))"

definition readValue :: "string \<Rightarrow> (govalue \<times> string) option" where
  "readValue cs =
     (case cs of
        [] \<Rightarrow> None
      | c # r \<Rightarrow>
          if c = CHR 0x22 then
            (case untilQuote r of None \<Rightarrow> None | Some (s, r') \<Rightarrow> Some (GString s, r'))
          else if c = CHR ''-'' \<and> r \<noteq> [] \<and> isDigit (hd r) then
            (let (n, r') = readDigits r 0 in Some (GFloat64 (float64_of_int (- n)), r'))
          else if isDigit c then
            (let (n, r') = readDigits cs 0 in Some (GFloat64 (float64_of_int n), r'))
          else if take 4 cs = ''null'' then Some (GNil, drop 4 cs)
          else if take 4 cs = ''true'' then Some (GBool True, drop 4 cs)
          else if take 5 cs = ''false'' then Some (GBool False, drop 5 cs)
          else None)"

text \<open>The members up to the closing brace; the first argument bounds the recursion.\<close>

fun readMembers :: "nat \<Rightarrow> string \<Rightarrow> (string \<times> govalue) list option" where
  "readMembers 0 cs = None"
| "readMembers (Suc n) cs =
     (case cs of
        [] \<Rightarrow> None
      | c # r \<Rightarrow>
          if c \<noteq> CHR 0x22 then None
          else
            (case untilQuote r of
               None \<Rightarrow> None
             | Some (k, r1) \<Rightarrow>
                 (case r1 of
                    [] \<Rightarrow> None
                  | c1 # r2 \<Rightarrow>
                      if c1 \<noteq> CHR '':'' then None
                      else
                        (case readValue r2 of
                           None \<Rightarrow> None
                         | Some (v, r3) \<Rightarrow>
                             if r3 = ''}'' then Some [(k, v)]
                             else
                               (case r3 of
                                  [] \<Rightarrow> None
                                | c3 # r4 \<Rightarrow>
                                    if c3 \<noteq> CHR '','' then None
                                    else
                                      (case readMembers n r4 of
                                         None \<Rightarrow> None
                                       | Some kvs \<Rightarrow> Some ((k, v) # kvs)))))))"

text \<open>A key that comes twice keeps its place and takes the later value, as a Go map does.\<close>

definition readObject :: "bytes \<Rightarrow> goerror + (string \<times> govalue) list" where
  "readObject data =
     (case map (\<lambda>b. char_of (unat b)) data of
        [] \<Rightarrow> Inl (LibError ''unexpected end of JSON input'')
      | c # r \<Rightarrow>
          if c \<noteq> CHR ''{'' then Inl (LibError ''cannot unmarshal into map'')
          else if r = ''}'' then Inr []
          else
            (case readMembers (length r) r of
               None \<Rightarrow> Inl (LibError ''invalid character'')
             | Some kvs \<Rightarrow> Inr (foldl (\<lambda>acc kv. AList.update (fst kv) (snd kv) acc) [] kvs)))"

definition demoLibs :: libs where
  "demoLibs =
     \<lparr>json_key = quoteBytes,
      json_value = showValue,
      json_compact = Inr,
      json_Unmarshal = readObject,
      NewWriterLevel =
        (\<lambda>t l. if - 2 \<le> l \<and> l \<le> 9 then None
                else Some (LibError ''invalid compression level'')),
      deflate = (\<lambda>z b. Inr ((case z of GzipWriter l \<Rightarrow> [0x1f, 0x8b] | _ \<Rightarrow> [0x78]) @ b)),
      conv_int32 = (\<lambda>f. 0x80000000),
      conv_int = (\<lambda>f. 0x8000000000000000)\<rparr>"

text \<open>A connection that takes every datagram whole, and one that reports 100 bytes for
  the second datagram; the random source delivers 8 bytes.\<close>

definition reliableOutside :: outside where
  "reliableOutside =
     \<lparr>conn_Write = (\<lambda>k buf. (int (length buf), None)),
      rand_ReadFull = (\<lambda>k. (replicate 8 0x5A, 8, None))\<rparr>"

definition shortOutside :: outside where
  "shortOutside =
     \<lparr>conn_Write = (\<lambda>k buf. if k = 1 then (100, None) else (int (length buf), None)),
      rand_ReadFull = (\<lambda>k. (replicate 8 0x5A, 8, None))\<rparr>"

definition emptyEnv :: env where
  "emptyEnv = \<lparr>writes = [], draws = 0, built = 0\<rparr>"

text \<open>Three messages: one with two extension fields, the zero value of the struct, and
  one whose encoding needs three chunks.\<close>

definition bootMessage :: Message where
  "bootMessage =
     \<lparr>Version = ''1.0'', Host = ''web1'', Short = ''boot'', Full = '''',
      TimeUnix = Finite 1500000000, Level = 6, Facility = ''app'', File = ''main.go'', Line = 42,
      Extra = Some [(''_user_id'', GFloat64 (Finite 42)), (''_env'', GString ''prod'')]\<rparr>"

definition zeroMessage :: Message where
  "zeroMessage =
     \<lparr>Version = [], Host = [], Short = [], Full = [], TimeUnix = Finite 0,
      Level = 0, Facility = [], File = [], Line = 0, Extra = None\<rparr>"

definition longMessage :: Message where
  "longMessage = bootMessage\<lparr>Full := replicate 3000 (CHR ''x''), Extra := None\<rparr>"

text \<open>The writer of \<^verbatim>\<open>newUDPWriter\<close>, set to send without compression.\<close>

definition plainWriter :: UDPWriter where
  "plainWriter = newUDPWriter\<lparr>CompressionType := NoCompress\<rparr>"

text \<open>Four texts: the encoding of \<open>bootMessage\<close>, and three objects that a message is
  not written as.\<close>

definition bootText :: bytes where
  \<open>bootText = map of_char ''{"version":"1.0","host":"web1","short_message":"boot","full_message":"","timestamp":1500000000,"level":6,"facility":"app","file":"main.go","line":42,"_env":"prod","_user_id":42}''\<close>

definition mistypedText :: bytes where
  \<open>mistypedText = map of_char ''{"version":1}''\<close>

definition emptyKeyText :: bytes where
  \<open>emptyKeyText = map of_char ''{"":1}''\<close>

definition mixedText :: bytes where
  \<open>mixedText = map of_char ''{"version":1,"":null}''\<close>

section \<open>Lemmas\<close>

subsection \<open>The chunk loop\<close>

text \<open>
  \<^verbatim>\<open>i++\<close> on a \<^verbatim>\<open>uint8\<close> below another one does not wrap.
\<close>

lemma uint8_succ_unat:
  fixes i n :: byte
  assumes "i < n"
  shows "unat (i + 1) = Suc (unat i)"
proof -
  from assms have "unat i < unat n"
    by (simp add: word_less_nat_alt)
  moreover have "unat n < 256"
    using unsigned_less [of n, where 'a = nat] by simp
  ultimately show ?thesis
    by (simp add: unat_word_ariths)
qed

lemma slice_chunk:
  assumes "k * 1408 \<le> length z"
  shows "goSlice z (int k * 1408)
           (int k * 1408 + (if 1408 > leftAfter z k then leftAfter z k else 1408))
         = Inr (take 1408 (drop (k * 1408) z))"
proof -
  have d: "nat (int k * 1408) = k * 1408"
    by (simp add: nat_mult_distrib)
  show ?thesis
  proof (cases "1408 > leftAfter z k")
    case True
    with assms have short: "length z - k * 1408 < 1408"
      by (auto simp: leftAfter_def)
    from assms have n: "nat (int (length z) - int k * 1408) = length z - k * 1408"
      by auto
    from True assms short show ?thesis
      by (simp add: goSlice_def leftAfter_def max_def n d)
  next
    case False
    then have "k * 1408 + 1408 \<le> length z"
      by (auto simp: leftAfter_def)
    with False show ?thesis
      by (simp add: goSlice_def d)
  qed
qed

lemma leftAfter_step:
  "leftAfter z k - (if 1408 > leftAfter z k then leftAfter z k else 1408) = leftAfter z (Suc k)"
  by (auto simp: leftAfter_def)

lemma chunkedDataLen_eq: "chunkedDataLen = 1408"
  by (simp add: chunkedDataLen_def ChunkSize_def chunkedHeaderLen_def)

lemma sendChunk_eq:
  assumes "unat i * 1408 \<le> length z"
  shows "sendChunk out z msgId n i (leftAfter z (unat i)) e =
    (let buf = chunkFrame msgId n z (unat i); e' = e\<lparr>writes := writes e @ [buf]\<rparr> in
     case conn_Write out (length (writes e)) buf of
       (c, Some s) \<Rightarrow> (Inl (Error (WriteChunkError i n s)), e')
     | (c, None) \<Rightarrow>
         if c \<noteq> int (length buf) then (Inl (Error (WriteLenError i n c (int (length buf)))), e')
         else (Inr (leftAfter z (Suc (unat i))), e'))"
proof -
  have u: "uint i = int (unat i)"
    by simp
  have sl: "goSlice z (uint i * chunkedDataLen)
        (uint i * chunkedDataLen +
          (if chunkedDataLen > leftAfter z (unat i) then leftAfter z (unat i) else chunkedDataLen))
      = Inr (take 1408 (drop (unat i * 1408) z))"
    unfolding chunkedDataLen_eq u by (rule slice_chunk [OF assms])
  have st: "leftAfter z (unat i) -
        (if chunkedDataLen > leftAfter z (unat i) then leftAfter z (unat i) else chunkedDataLen)
      = leftAfter z (Suc (unat i))"
    unfolding chunkedDataLen_eq by (rule leftAfter_step)
  have fr: "magicChunked @ msgId @ [i] @ [n] @ take 1408 (drop (unat i * 1408) z)
      = chunkFrame msgId n z (unat i)"
    by (simp add: chunkFrame_def)
  show ?thesis
    unfolding sendChunk_def Let_def sl st sum.case fr
    by (simp split: prod.splits option.splits)
qed

lemma chunkLoop_all_ok:
  assumes conn: "\<And>k buf. conn_Write out k buf = (int (length buf), None)"
    and inv: "\<And>j. j < unat n \<Longrightarrow> j * 1408 \<le> length z"
  shows "i \<le> n \<Longrightarrow>
     chunkLoop out z msgId n i (leftAfter z (unat i)) e =
       (Inr (leftAfter z (unat n)),
        e\<lparr>writes := writes e @ map (chunkFrame msgId n z) [unat i ..< unat n]\<rparr>)"
proof (induction "unat n - unat i" arbitrary: i e)
  case 0
  then have "i = n"
    by (simp add: word_le_nat_alt word_unat_eq_iff)
  then show ?case
    by (subst chunkLoop.simps) simp
next
  case (Suc d)
  then have lt: "i < n"
    by (simp add: word_less_nat_alt)
  then have ulti: "unat i < unat n"
    by (simp add: word_less_nat_alt)
  note su = uint8_succ_unat [OF lt]
  have le': "i + 1 \<le> n"
    using ulti su by (simp add: word_le_nat_alt)
  have d: "d = unat n - unat (i + 1)"
    using Suc.hyps(2) su by simp
  have up: "[unat i ..< unat n] = unat i # [unat (i + 1) ..< unat n]"
    using ulti su by (simp add: upt_conv_Cons)
  show ?case
    apply (subst chunkLoop.simps)
    apply (simp add: lt sendChunk_eq [OF inv [OF ulti]] conn Let_def)
    apply (simp add: Suc.hyps(1) [OF d le', unfolded su] up su)
    done
qed

lemma chunkLoop_run:
  assumes inv: "\<And>j. j < unat n \<Longrightarrow> j * 1408 \<le> length z"
  shows "i \<le> n \<Longrightarrow>
     \<exists>r ds. chunkLoop out z msgId n i (leftAfter z (unat i)) e = (r, e\<lparr>writes := writes e @ ds\<rparr>)
       \<and> (\<forall>k < length ds. ds ! k = chunkFrame msgId n z (unat i + k))
       \<and> unat i + length ds \<le> unat n
       \<and> (\<forall>k < length ds.
            conn_Write out (length (writes e) + k) (ds ! k) \<noteq> (int (length (ds ! k)), None) \<longrightarrow>
              Suc k = length ds \<and>
              r = Inl (Error (writeFault (of_nat (unat i + k)) n
                     (conn_Write out (length (writes e) + k) (ds ! k)) (int (length (ds ! k))))))
       \<and> (\<forall>b. r = Inr b \<longrightarrow> b = leftAfter z (unat n) \<and> unat i + length ds = unat n)"
proof (induction "unat n - unat i" arbitrary: i e)
  case 0
  then have "i = n"
    by (simp add: word_le_nat_alt word_unat_eq_iff)
  then have "chunkLoop out z msgId n i (leftAfter z (unat i)) e = (Inr (leftAfter z (unat n)), e\<lparr>writes := writes e @ []\<rparr>)"
    by (subst chunkLoop.simps) simp
  then show ?case
    by (intro exI [of _ "Inr (leftAfter z (unat n))"] exI [of _ "[]"]) (simp add: \<open>i = n\<close>)
next
  case (Suc d)
  then have lt: "i < n"
    by (simp add: word_less_nat_alt)
  then have ulti: "unat i < unat n"
    by (simp add: word_less_nat_alt)
  note su = uint8_succ_unat [OF lt]
  have le': "i + 1 \<le> n"
    using ulti su by (simp add: word_le_nat_alt)
  have d: "d = unat n - unat (i + 1)"
    using Suc.hyps(2) su by simp
  define fr where "fr = chunkFrame msgId n z (unat i)"
  define e' where "e' = e\<lparr>writes := writes e @ [fr]\<rparr>"
  define a where "a = conn_Write out (length (writes e)) fr"
  have step: "chunkLoop out z msgId n i (leftAfter z (unat i)) e =
      (case a of
         (c, Some s) \<Rightarrow> (Inl (Error (WriteChunkError i n s)), e')
       | (c, None) \<Rightarrow>
           if c \<noteq> int (length fr) then (Inl (Error (WriteLenError i n c (int (length fr)))), e')
           else chunkLoop out z msgId n (i + 1) (leftAfter z (unat (i + 1))) e')"
    by (subst chunkLoop.simps)
      (simp add: lt sendChunk_eq [OF inv [OF ulti]] Let_def fr_def e'_def a_def su
        split: prod.splits option.splits)
  show ?case
  proof (cases "a = (int (length fr), None)")
    case False
    then have r: "chunkLoop out z msgId n i (leftAfter z (unat i)) e =
        (Inl (Error (writeFault i n a (int (length fr)))), e\<lparr>writes := writes e @ [fr]\<rparr>)"
      unfolding step by (auto simp: writeFault_def e'_def split: prod.splits option.splits)
    show ?thesis
      apply (intro exI [of _ "Inl (Error (writeFault i n a (int (length fr))))"] exI [of _ "[fr]"])
      using False ulti by (simp add: r fr_def [symmetric] a_def [symmetric])
  next
    case True
    then have r: "chunkLoop out z msgId n i (leftAfter z (unat i)) e =
        chunkLoop out z msgId n (i + 1) (leftAfter z (unat (i + 1))) e'"
      unfolding step by simp
    from Suc.hyps(1) [OF d le', of e'] obtain r' ds' where
      run: "chunkLoop out z msgId n (i + 1) (leftAfter z (unat (i + 1))) e' = (r', e'\<lparr>writes := writes e' @ ds'\<rparr>)"
      and frames: "\<forall>k < length ds'. ds' ! k = chunkFrame msgId n z (unat (i + 1) + k)"
      and len: "unat (i + 1) + length ds' \<le> unat n"
      and bad: "\<forall>k < length ds'.
            conn_Write out (length (writes e') + k) (ds' ! k) \<noteq> (int (length (ds' ! k)), None) \<longrightarrow>
              Suc k = length ds' \<and>
              r' = Inl (Error (writeFault (of_nat (unat (i + 1) + k)) n
                     (conn_Write out (length (writes e') + k) (ds' ! k)) (int (length (ds' ! k)))))"
      and ok: "\<forall>b. r' = Inr b \<longrightarrow> b = leftAfter z (unat n) \<and> unat (i + 1) + length ds' = unat n"
      by blast
    have c1: "chunkLoop out z msgId n i (leftAfter z (unat i)) e = (r', e\<lparr>writes := writes e @ fr # ds'\<rparr>)"
      unfolding r run by (simp add: e'_def)
    have c2: "\<forall>k < length (fr # ds'). (fr # ds') ! k = chunkFrame msgId n z (unat i + k)"
      using frames su by (auto simp: fr_def nth_Cons split: nat.splits)
    have c3: "unat i + length (fr # ds') \<le> unat n"
      using len su by simp
    have c4: "\<forall>k < length (fr # ds').
            conn_Write out (length (writes e) + k) ((fr # ds') ! k) \<noteq> (int (length ((fr # ds') ! k)), None) \<longrightarrow>
              Suc k = length (fr # ds') \<and>
              r' = Inl (Error (writeFault (of_nat (unat i + k)) n
                     (conn_Write out (length (writes e) + k) ((fr # ds') ! k)) (int (length ((fr # ds') ! k)))))"
    proof (intro allI impI)
      fix k
      assume k: "k < length (fr # ds')"
        and ne: "conn_Write out (length (writes e) + k) ((fr # ds') ! k) \<noteq> (int (length ((fr # ds') ! k)), None)"
      show "Suc k = length (fr # ds') \<and>
              r' = Inl (Error (writeFault (of_nat (unat i + k)) n
                     (conn_Write out (length (writes e) + k) ((fr # ds') ! k)) (int (length ((fr # ds') ! k)))))"
      proof (cases k)
        case 0
        with ne True show ?thesis by (simp add: a_def)
      next
        case (Suc k')
        with k have k': "k' < length ds'" by simp
        from ne Suc have "conn_Write out (length (writes e') + k') (ds' ! k') \<noteq> (int (length (ds' ! k')), None)"
          by (simp add: e'_def)
        with bad k' have "Suc k' = length ds' \<and>
              r' = Inl (Error (writeFault (of_nat (unat (i + 1) + k')) n
                     (conn_Write out (length (writes e') + k') (ds' ! k')) (int (length (ds' ! k')))))"
          by blast
        moreover have "(fr # ds') ! k = ds' ! k'"
          and "length (writes e) + k = length (writes e') + k'"
          and "unat i + k = unat (i + 1) + k'"
          and "length (fr # ds') = Suc (length ds')"
          using Suc su by (simp_all add: e'_def)
        ultimately show ?thesis
          using Suc by (simp only:)
      qed
    qed
    have c6: "\<forall>b. r' = Inr b \<longrightarrow> b = leftAfter z (unat n) \<and> unat i + length (fr # ds') = unat n"
      using ok su by simp
    show ?thesis
      using c1 c2 c3 c4 c6 by blast
  qed
qed

lemma numChunks_cases:
  "numChunks z = (if int (length z) \<le> 1420 then 1 else int (length z) div 1408 + 1)"
  by (simp add: numChunks_def Let_def ChunkSize_def chunkedDataLen_eq)

lemma numChunks_pos: "1 \<le> numChunks z"
  by (simp add: numChunks_cases pos_imp_zdiv_nonneg_iff)

lemma unat_nChunks:
  assumes "numChunks z \<le> 255"
  shows "unat (word_of_int (numChunks z) :: byte) = nat (numChunks z)"
proof -
  have "0 \<le> numChunks z" using numChunks_pos [of z] by simp
  with assms show ?thesis
    by (simp add: unat_eq_nat_uint uint_word_of_int)
qed

lemma numChunks_inv:
  assumes "numChunks z \<le> 255" and "j < unat (word_of_int (numChunks z) :: byte)"
  shows "j * 1408 \<le> length z"
proof -
  from assms have j: "int j < numChunks z"
    by (simp add: unat_nChunks)
  show ?thesis
  proof (cases "int (length z) \<le> 1420")
    case True
    with j show ?thesis by (simp add: numChunks_cases)
  next
    case False
    with j have "int j \<le> int (length z) div 1408"
      by (simp add: numChunks_cases)
    then have "int j * 1408 \<le> int (length z)"
      by simp
    then show ?thesis by linarith
  qed
qed

lemma leftAfter_0: "leftAfter z 0 = int (length z)"
  by (simp add: leftAfter_def)

lemma leftAfter_end:
  assumes "2 \<le> numChunks z"
  shows "leftAfter z (nat (numChunks z)) = 0"
proof -
  from assms have nc: "numChunks z = int (length z) div 1408 + 1"
    by (simp add: numChunks_cases split: if_splits)
  have "int (length z) < (int (length z) div 1408 + 1) * 1408"
    by simp
  then show ?thesis
    using assms by (simp add: leftAfter_def nc)
qed

lemma writeChunked_run:
  assumes le: "numChunks z \<le> 255"
    and rd: "rand_ReadFull out (draws e) = (bs, 8, None)"
  shows "\<exists>r ds. writeChunked out z e = (r, e\<lparr>writes := writes e @ ds, draws := Suc (draws e)\<rparr>)
       \<and> (\<forall>k < length ds. ds ! k = chunkFrame (fill8 bs) (word_of_int (numChunks z)) z k)
       \<and> int (length ds) \<le> numChunks z
       \<and> (\<forall>k < length ds.
            conn_Write out (length (writes e) + k) (ds ! k) \<noteq> (int (length (ds ! k)), None) \<longrightarrow>
              Suc k = length ds \<and>
              r = Inl (Error (writeFault (of_nat k) (word_of_int (numChunks z))
                     (conn_Write out (length (writes e) + k) (ds ! k)) (int (length (ds ! k))))))"
proof -
  define n :: byte where "n = word_of_int (numChunks z)"
  define e1 where "e1 = e\<lparr>draws := Suc (draws e)\<rparr>"
  have inv: "\<And>j. j < unat n \<Longrightarrow> j * 1408 \<le> length z"
    unfolding n_def by (rule numChunks_inv [OF le])
  from chunkLoop_run [where i = 0 and n = n and z = z and out = out and msgId = "fill8 bs" and e = e1, OF inv]
  obtain r ds where
    run: "chunkLoop out z (fill8 bs) n 0 (leftAfter z (unat (0::byte))) e1 = (r, e1\<lparr>writes := writes e1 @ ds\<rparr>)"
    and frames: "\<forall>k < length ds. ds ! k = chunkFrame (fill8 bs) n z (unat (0::byte) + k)"
    and len: "unat (0::byte) + length ds \<le> unat n"
    and bad: "\<forall>k < length ds.
            conn_Write out (length (writes e1) + k) (ds ! k) \<noteq> (int (length (ds ! k)), None) \<longrightarrow>
              Suc k = length ds \<and>
              r = Inl (Error (writeFault (of_nat (unat (0::byte) + k)) n
                     (conn_Write out (length (writes e1) + k) (ds ! k)) (int (length (ds ! k)))))"
    by auto
  have run': "chunkLoop out z (fill8 bs) n 0 (int (length z)) e1 = (r, e1\<lparr>writes := writes e1 @ ds\<rparr>)"
    using run by (simp add: leftAfter_0)
  define r' :: "fault + unit" where "r' = (case r of Inl f \<Rightarrow> Inl f
      | Inr b \<Rightarrow> if b \<noteq> 0 then Inl (Error (BytesLeftError b)) else Inr ())"
  have w: "writeChunked out z e = (r', e\<lparr>writes := writes e @ ds, draws := Suc (draws e)\<rparr>)"
    using le by (simp add: writeChunked_def Let_def rd n_def [symmetric] e1_def [symmetric] run' r'_def
        split: sum.splits) (simp add: e1_def)
  have "\<forall>k < length ds.
            conn_Write out (length (writes e) + k) (ds ! k) \<noteq> (int (length (ds ! k)), None) \<longrightarrow>
              Suc k = length ds \<and>
              r' = Inl (Error (writeFault (of_nat k) n
                     (conn_Write out (length (writes e) + k) (ds ! k)) (int (length (ds ! k)))))"
    using bad by (simp add: r'_def e1_def)
  moreover have "int (length ds) \<le> numChunks z"
    using len unat_nChunks [OF le] numChunks_pos [of z] by (simp add: n_def)
  ultimately show ?thesis
    using w frames unfolding n_def by auto
qed

lemma concat_slices:
  "concat (map (\<lambda>k. take c (drop (k * c) z)) [0..<N]) = take (N * c) z"
proof (induction N)
  case 0
  show ?case by simp
next
  case (Suc N)
  have "take (N * c + c) z = take (N * c) z @ take c (drop (N * c) z)"
    by (rule take_add)
  then have "take (Suc N * c) z = take (N * c) z @ take c (drop (N * c) z)"
    by (simp only: mult_Suc add.commute)
  with Suc show ?case by simp
qed

lemma length_fill8: "length (fill8 bs) = 8"
  by (simp add: fill8_def)

lemma drop12_chunkFrame:
  "length msgId = 8 \<Longrightarrow> drop 12 (chunkFrame msgId n z k) = take 1408 (drop (k * 1408) z)"
  by (simp add: chunkFrame_def magicChunked_def)

lemma prepare_writes:
  assumes "prepare lib w m e = (x, w', e')"
  shows "writes e' = writes e \<and> draws e' = draws e"
  using assms
  by (auto simp: prepare_def obtainWriter_def newWriter_def
      split: sum.splits prod.splits option.splits if_splits)

lemma sendBytes_short_write:
  assumes run: "sendBytes out zBytes e = (r, e')"
  shows "\<exists>ds. writes e' = writes e @ ds \<and>
     (\<forall>k < length ds. \<forall>n err.
        conn_Write out (length (writes e) + k) (ds ! k) = (n, err) \<and> n \<noteq> int (length (ds ! k)) \<longrightarrow>
          Suc k = length ds \<and> (\<exists>ge. r = Inl (Error ge)) \<and>
          (err = None \<longrightarrow>
             r = Inl (Error (BadWrite n (int (length (ds ! k))))) \<or>
             r = Inl (Error (WriteLenError (of_nat k) (word_of_int (numChunks zBytes)) n
                    (int (length (ds ! k)))))))"
proof (cases "numChunks zBytes > 1")
  case False
  obtain n err where a: "conn_Write out (length (writes e)) zBytes = (n, err)"
    by (cases "conn_Write out (length (writes e)) zBytes") auto
  from False run a have e': "writes e' = writes e @ [zBytes]"
    by (auto simp: sendBytes_def Let_def split: option.splits if_splits)
  from False run a have "n \<noteq> int (length zBytes) \<Longrightarrow>
      (\<exists>ge. r = Inl (Error ge)) \<and> (err = None \<longrightarrow> r = Inl (Error (BadWrite n (int (length zBytes)))))"
    by (auto simp: sendBytes_def Let_def split: option.splits)
  with a have "\<forall>k < length [zBytes]. \<forall>n err.
        conn_Write out (length (writes e) + k) ([zBytes] ! k) = (n, err) \<and> n \<noteq> int (length ([zBytes] ! k)) \<longrightarrow>
          Suc k = length [zBytes] \<and> (\<exists>ge. r = Inl (Error ge)) \<and>
          (err = None \<longrightarrow>
             r = Inl (Error (BadWrite n (int (length ([zBytes] ! k))))) \<or>
             r = Inl (Error (WriteLenError (of_nat k) (word_of_int (numChunks zBytes)) n
                    (int (length ([zBytes] ! k))))))"
    by auto
  with e' show ?thesis
    by blast
next
  case True
  with run have wc: "writeChunked out zBytes e = (r, e')"
    by (simp add: sendBytes_def)
  show ?thesis
  proof (cases "numChunks zBytes > 255")
    case True
    with wc have "e' = e"
      by (simp add: writeChunked_def Let_def)
    then show ?thesis
      by (intro exI [of _ "[]"]) simp
  next
    case False
    then have le: "numChunks zBytes \<le> 255"
      by simp
    obtain bs n err where rd: "rand_ReadFull out (draws e) = (bs, n, err)"
      by (cases "rand_ReadFull out (draws e)") auto
    show ?thesis
    proof (cases "err \<noteq> None \<or> n \<noteq> 8")
      case True
      with wc le rd have "e' = e\<lparr>draws := Suc (draws e)\<rparr>"
        by (auto simp: writeChunked_def Let_def)
      then show ?thesis
        by (intro exI [of _ "[]"]) simp
    next
      case False
      with rd have rd': "rand_ReadFull out (draws e) = (bs, 8, None)"
        by simp
      from writeChunked_run [OF le rd'] wc obtain ds where
        w: "e' = e\<lparr>writes := writes e @ ds, draws := Suc (draws e)\<rparr>"
        and bad: "\<forall>k < length ds.
            conn_Write out (length (writes e) + k) (ds ! k) \<noteq> (int (length (ds ! k)), None) \<longrightarrow>
              Suc k = length ds \<and>
              r = Inl (Error (writeFault (of_nat k) (word_of_int (numChunks zBytes))
                     (conn_Write out (length (writes e) + k) (ds ! k)) (int (length (ds ! k)))))"
        by auto
      have "\<forall>k < length ds. \<forall>n err.
        conn_Write out (length (writes e) + k) (ds ! k) = (n, err) \<and> n \<noteq> int (length (ds ! k)) \<longrightarrow>
          Suc k = length ds \<and> (\<exists>ge. r = Inl (Error ge)) \<and>
          (err = None \<longrightarrow>
             r = Inl (Error (BadWrite n (int (length (ds ! k))))) \<or>
             r = Inl (Error (WriteLenError (of_nat k) (word_of_int (numChunks zBytes)) n
                    (int (length (ds ! k))))))"
      proof (intro allI impI)
        fix k n err
        assume k: "k < length ds"
          and a: "conn_Write out (length (writes e) + k) (ds ! k) = (n, err) \<and> n \<noteq> int (length (ds ! k))"
        then have "conn_Write out (length (writes e) + k) (ds ! k) \<noteq> (int (length (ds ! k)), None)"
          by auto
        with bad k have "Suc k = length ds" and
          "r = Inl (Error (writeFault (of_nat k) (word_of_int (numChunks zBytes))
                     (conn_Write out (length (writes e) + k) (ds ! k)) (int (length (ds ! k)))))"
          by blast+
        with a show "Suc k = length ds \<and> (\<exists>ge. r = Inl (Error ge)) \<and>
          (err = None \<longrightarrow>
             r = Inl (Error (BadWrite n (int (length (ds ! k))))) \<or>
             r = Inl (Error (WriteLenError (of_nat k) (word_of_int (numChunks zBytes)) n
                    (int (length (ds ! k))))))"
          by (auto simp: writeFault_def)
      qed
      moreover have "writes e' = writes e @ ds"
        using w by simp
      ultimately show ?thesis
        by blast
    qed
  qed
qed

subsection \<open>The codec\<close>

lemma jsonMembers_append:
  "jsonMembers lib (xs @ ys) =
     (case jsonMembers lib xs of
        Inl err \<Rightarrow> Inl err
      | Inr a \<Rightarrow> (case jsonMembers lib ys of Inl err \<Rightarrow> Inl err | Inr b \<Rightarrow> Inr (a @ b)))"
  by (induction xs) (auto split: sum.splits)

lemma jsonMembers_length:
  "jsonMembers lib xs = Inr bs \<Longrightarrow> length bs = length xs"
  by (induction xs arbitrary: bs) (auto split: sum.splits)

lemma joinComma_append:
  "a \<noteq> [] \<Longrightarrow> b \<noteq> [] \<Longrightarrow> joinComma (a @ b) = joinComma a @ [0x2C] @ joinComma b"
proof (induction a rule: joinComma.induct)
  case 1
  then show ?case by simp
next
  case (2 x)
  then show ?case by (cases b) simp_all
next
  case (3 x y ys)
  then show ?case by simp
qed

lemma splice:
  assumes "a \<noteq> []" and "b \<noteq> []"
  shows "([0x7B] @ joinComma a @ [0x7D]) [length ([0x7B] @ joinComma a @ [0x7D]) - 1 := 0x2C]
           @ drop 1 ([0x7B] @ joinComma b @ [0x7D :: byte])
         = [0x7B] @ joinComma (a @ b) @ [0x7D :: byte]"
proof -
  have "([0x7B :: byte] @ joinComma a @ [0x7D]) [length ([0x7B :: byte] @ joinComma a @ [0x7D]) - 1 := 0x2C]
      = [0x7B] @ joinComma a @ [0x2C]"
    by (simp add: list_update_append)
  then show ?thesis
    using assms by (simp add: joinComma_append)
qed

lemma slice_tail: "b \<noteq> [] \<Longrightarrow> goSlice b 1 (int (length b)) = Inr (drop 1 b)"
  by (cases b) (simp_all add: goSlice_def)

lemma len_map_0: "len_map extra = 0 \<longleftrightarrow> entries extra = []"
  by (cases extra) (simp_all add: len_map_def entries_def)

lemma MarshalJSON_eq:
  "MarshalJSON lib m = map_sum Error id (jsonObject lib (flatObject m))"
proof (cases "jsonMembers lib (structFields m)")
  case (Inl err)
  then show ?thesis
    by (simp add: MarshalJSON_def json_Marshal_inner_def jsonObject_def flatObject_def
        jsonMembers_append)
next
  case (Inr ms)
  then have ms: "ms \<noteq> []"
    using jsonMembers_length [OF Inr] by (auto simp: structFields_def)
  show ?thesis
  proof (cases "entries (Extra m) = []")
    case True
    with Inr show ?thesis
      by (simp add: MarshalJSON_def json_Marshal_inner_def jsonObject_def flatObject_def
          len_map_0)
  next
    case False
    then obtain kvs where ex: "Extra m = Some kvs" and kvs: "kvs \<noteq> []"
      by (cases "Extra m") (auto simp: entries_def)
    show ?thesis
    proof (cases "jsonMembers lib (sort_key fst kvs)")
      case (Inl err)
      with Inr ex kvs show ?thesis
        by (simp add: MarshalJSON_def json_Marshal_inner_def json_Marshal_map_def jsonObject_def
            flatObject_def len_map_def entries_def jsonMembers_append)
    next
      case es: (Inr es)
      have "length es = length kvs"
        using jsonMembers_length [OF es] by simp
      with kvs have es_ne: "es \<noteq> []"
        by auto
      have b: "json_Marshal_inner lib m = Inr ([0x7B] @ joinComma ms @ [0x7D])"
        using Inr by (simp add: json_Marshal_inner_def jsonObject_def)
      have eb: "json_Marshal_map lib (Extra m) = Inr ([0x7B] @ joinComma es @ [0x7D])"
        using es ex by (simp add: json_Marshal_map_def jsonObject_def)
      have sl: "goSlice ([0x7B] @ joinComma es @ [0x7D]) 1 (int (length ([0x7B :: byte] @ joinComma es @ [0x7D])))
          = Inr (drop 1 ([0x7B] @ joinComma es @ [0x7D]))"
        by (rule slice_tail) simp
      have "MarshalJSON lib m = Inr (([0x7B] @ joinComma ms @ [0x7D]) [length ([0x7B :: byte] @ joinComma ms @ [0x7D]) - 1 := 0x2C]
           @ drop 1 ([0x7B] @ joinComma es @ [0x7D]))"
        unfolding MarshalJSON_def Let_def b eb sum.case sl
        using ex kvs by (simp add: len_map_def)
      also have "\<dots> = Inr ([0x7B] @ joinComma (ms @ es) @ [0x7D])"
        by (simp only: splice [OF ms es_ne])
      finally show ?thesis
        using Inr es ex by (simp add: jsonObject_def flatObject_def entries_def jsonMembers_append)
    qed
  qed
qed

lemma assertString_Inl: "assertString k v = Inl f \<Longrightarrow> f = Panic (TypeAssertionFailed k)"
  by (auto simp: assertString_def split: govalue.splits)

lemma assertFloat64_Inl: "assertFloat64 k v = Inl f \<Longrightarrow> f = Panic (TypeAssertionFailed k)"
  by (auto simp: assertFloat64_def split: govalue.splits)



lemma map_sum_id_Inl: "map_sum id g x = Inl f \<longleftrightarrow> x = Inl f"
  by (cases x) simp_all


lemma setField_fault:
  assumes "setField lib m k v = Inl f"
  shows "f = Panic IndexOutOfRange \<or> f = Panic (TypeAssertionFailed k)"
  using assms unfolding setField_def
  by (simp add: map_sum_id_Inl split: if_splits)
    (blast dest: assertString_Inl assertFloat64_Inl)+

lemma setField_empty: "setField lib m [] v = Inl (Panic IndexOutOfRange)"
  by (simp add: setField_def)

lemma entries_simps [simp]: "entries None = []" "entries (Some kvs) = kvs"
  by (simp_all add: entries_def)

lemma twelve_cases:
  assumes "A \<Longrightarrow> P" and "\<not> A \<Longrightarrow> B \<Longrightarrow> P"
    and "C1 \<Longrightarrow> P" and "C2 \<Longrightarrow> P" and "C3 \<Longrightarrow> P" and "C4 \<Longrightarrow> P" and "C5 \<Longrightarrow> P"
    and "C6 \<Longrightarrow> P" and "C7 \<Longrightarrow> P" and "C8 \<Longrightarrow> P" and "C9 \<Longrightarrow> P"
    and "\<not> A \<Longrightarrow> \<not> B \<Longrightarrow> \<not> (C1 \<or> C2 \<or> C3 \<or> C4 \<or> C7 \<or> C8) \<Longrightarrow> \<not> (C5 \<or> C6 \<or> C9) \<Longrightarrow> P"
  shows P
  using assms by blast

lemma key_cases [case_names empty underscore version host short full timestamp level
    facility srcfile srcline other]:
  obtains "k = []"
  | "k \<noteq> []" "hd k = CHR ''_''"
  | "k = ''version''" | "k = ''host''" | "k = ''short_message''" | "k = ''full_message''"
  | "k = ''timestamp''" | "k = ''level''" | "k = ''facility''" | "k = ''file''" | "k = ''line''"
  | "k \<noteq> []" "hd k \<noteq> CHR ''_''" "k \<notin> set stringKeys" "k \<notin> set numberKeys"
proof (rule twelve_cases [of "k = []" thesis "hd k = CHR ''_''" "k = ''version''" "k = ''host''"
      "k = ''short_message''" "k = ''full_message''" "k = ''timestamp''" "k = ''level''"
      "k = ''facility''" "k = ''file''" "k = ''line''"])
  assume "k \<noteq> []" and "hd k \<noteq> CHR ''_''"
    and "\<not> (k = ''version'' \<or> k = ''host'' \<or> k = ''short_message'' \<or> k = ''full_message'' \<or>
          k = ''facility'' \<or> k = ''file'')"
    and "\<not> (k = ''timestamp'' \<or> k = ''level'' \<or> k = ''line'')"
  then show thesis
    by (intro that(12)) (simp_all only: stringKeys_def numberKeys_def list.set insert_iff empty_iff
        simp_thms not_False_eq_True)
qed (rule that; assumption)+



lemma setField_fixed:
  "setField lib m ''version'' v = map_sum id (\<lambda>s. m\<lparr>Version := s\<rparr>) (assertString ''version'' v)"
  "setField lib m ''host'' v = map_sum id (\<lambda>s. m\<lparr>Host := s\<rparr>) (assertString ''host'' v)"
  "setField lib m ''short_message'' v =
     map_sum id (\<lambda>s. m\<lparr>Short := s\<rparr>) (assertString ''short_message'' v)"
  "setField lib m ''full_message'' v =
     map_sum id (\<lambda>s. m\<lparr>Full := s\<rparr>) (assertString ''full_message'' v)"
  "setField lib m ''timestamp'' v =
     map_sum id (\<lambda>f. m\<lparr>TimeUnix := f\<rparr>) (assertFloat64 ''timestamp'' v)"
  "setField lib m ''level'' v =
     map_sum id (\<lambda>f. m\<lparr>Level := int32_of_float64 lib f\<rparr>) (assertFloat64 ''level'' v)"
  "setField lib m ''facility'' v =
     map_sum id (\<lambda>s. m\<lparr>Facility := s\<rparr>) (assertString ''facility'' v)"
  "setField lib m ''file'' v = map_sum id (\<lambda>s. m\<lparr>File := s\<rparr>) (assertString ''file'' v)"
  "setField lib m ''line'' v =
     map_sum id (\<lambda>f. m\<lparr>Line := int_of_float64 lib f\<rparr>) (assertFloat64 ''line'' v)"
  by (simp_all add: setField_def)

lemma setField_underscore:
  "k \<noteq> [] \<Longrightarrow> hd k = CHR ''_'' \<Longrightarrow>
   setField lib m k v = Inr (m\<lparr>Extra := Some (AList.update k v (entries (Extra m)))\<rparr>)"
  by (simp add: setField_def entries_def)

lemma setField_other:
  "k \<noteq> [] \<Longrightarrow> hd k \<noteq> CHR ''_'' \<Longrightarrow> k \<notin> set stringKeys \<Longrightarrow> k \<notin> set numberKeys \<Longrightarrow>
   setField lib m k v = Inr m"
  by (simp add: setField_def stringKeys_def numberKeys_def)

lemma wellTyped_string:
  "k \<in> set stringKeys \<Longrightarrow> wellTyped k v \<Longrightarrow> \<exists>s. assertString k v = Inr s"
  by (auto simp: wellTyped_def assertString_def split: govalue.splits)

lemma wellTyped_number:
  "k \<in> set numberKeys \<Longrightarrow> wellTyped k v \<Longrightarrow> \<exists>f. assertFloat64 k v = Inr f"
  by (auto simp: wellTyped_def assertFloat64_def split: govalue.splits)

lemma setField_ok:
  assumes "k \<noteq> []" and "wellTyped k v"
  shows "\<exists>m'. setField lib m k v = Inr m'"
proof (cases k rule: key_cases)
  case empty
  with assms show ?thesis by simp
next
  case underscore
  then show ?thesis by (simp add: setField_underscore)
next
  case other
  then show ?thesis by (simp add: setField_other)
next
  case version
  with wellTyped_string [of k v] assms(2) show ?thesis
    by (auto simp: setField_fixed stringKeys_def)
next
  case host
  with wellTyped_string [of k v] assms(2) show ?thesis
    by (auto simp: setField_fixed stringKeys_def)
next
  case short
  with wellTyped_string [of k v] assms(2) show ?thesis
    by (auto simp: setField_fixed stringKeys_def)
next
  case full
  with wellTyped_string [of k v] assms(2) show ?thesis
    by (auto simp: setField_fixed stringKeys_def)
next
  case facility
  with wellTyped_string [of k v] assms(2) show ?thesis
    by (auto simp: setField_fixed stringKeys_def)
next
  case srcfile
  with wellTyped_string [of k v] assms(2) show ?thesis
    by (auto simp: setField_fixed stringKeys_def)
next
  case timestamp
  with wellTyped_number [of k v] assms(2) show ?thesis
    by (auto simp: setField_fixed numberKeys_def)
next
  case level
  with wellTyped_number [of k v] assms(2) show ?thesis
    by (auto simp: setField_fixed numberKeys_def)
next
  case srcline
  with wellTyped_number [of k v] assms(2) show ?thesis
    by (auto simp: setField_fixed numberKeys_def)
qed











lemma rangeLoop_empty_key:
  assumes "[] \<in> fst ` set kvs"
  shows "\<exists>p. rangeLoop lib m kvs = Inl (Panic p)"
  using assms
proof (induction kvs arbitrary: m)
  case Nil
  then show ?case by simp
next
  case (Cons kv kvs)
  obtain k v where kv: "kv = (k, v)"
    by (cases kv) auto
  show ?case
  proof (cases "setField lib m k v")
    case (Inl f)
    with setField_fault [OF Inl] kv show ?thesis by auto
  next
    case (Inr m1)
    then have "k \<noteq> []"
      by (auto simp: setField_empty)
    with Cons.prems kv have "[] \<in> fst ` set kvs"
      by auto
    from Cons.IH [OF this, of m1] Inr kv show ?thesis
      by simp
  qed
qed

lemma rangeLoop_empty_key_first:
  assumes "[] \<in> fst ` set kvs"
    and "list_all (\<lambda>kv. wellTyped (fst kv) (snd kv)) (takeWhile (\<lambda>kv. fst kv \<noteq> []) kvs)"
  shows "rangeLoop lib m kvs = Inl (Panic IndexOutOfRange)"
  using assms
proof (induction kvs arbitrary: m)
  case Nil
  then show ?case by simp
next
  case (Cons kv kvs)
  obtain k v where kv: "kv = (k, v)"
    by (cases kv) auto
  show ?case
  proof (cases "k = []")
    case True
    with kv show ?thesis by (simp add: setField_empty)
  next
    case False
    with Cons.prems kv have wt: "wellTyped k v"
      and rest: "list_all (\<lambda>kv. wellTyped (fst kv) (snd kv)) (takeWhile (\<lambda>kv. fst kv \<noteq> []) kvs)"
      and mem: "[] \<in> fst ` set kvs"
      by auto
    from setField_ok [OF False wt] obtain m1 where "setField lib m k v = Inr m1"
      by blast
    with Cons.IH [OF mem rest, of m1] kv show ?thesis
      by simp
  qed
qed










subsection \<open>Runs of the model\<close>

lemma demoLibs_simps:
  "json_key demoLibs = quoteBytes" "json_value demoLibs = showValue" "json_compact demoLibs = Inr"
  "json_Unmarshal demoLibs = readObject"
  by (simp_all add: demoLibs_def)

lemma run_chunks_short:
  "writeChunked shortOutside (replicate 3000 0x78) emptyEnv =
     (Inl (Error (WriteLenError 1 3 100 1420)),
      \<lparr>writes = [[0x1e, 0x0f] @ replicate 8 0x5A @ [0, 3] @ replicate 1408 0x78,
                 [0x1e, 0x0f] @ replicate 8 0x5A @ [1, 3] @ replicate 1408 0x78],
       draws = 1, built = 0\<rparr>)"
  by (simp add: writeChunked_def numChunks_cases shortOutside_def emptyEnv_def fill8_def
      chunkLoop.simps sendChunk_def chunkedDataLen_eq goSlice_def magicChunked_def Let_def)

lemma run_long_short:
  "(case WriteMessage demoLibs shortOutside plainWriter longMessage emptyEnv of
      (r, w, e) \<Rightarrow> (r, map length (writes e)))
   = (Inl (Error (WriteLenError 1 3 100 1420)), [1420, 1420])"
  by (simp add: json_Marshal_def MarshalJSON_def json_Marshal_inner_def jsonObject_def
      jsonMember_def structFields_def longMessage_def bootMessage_def demoLibs_simps
      quoteBytes_def showInt_def showDigits.simps len_map_def
      WriteMessage_def prepare_def dropStale_def obtainWriter_def compress_def sendBytes_def
      numChunks_cases writeChunked_def chunkLoop.simps sendChunk_def goSlice_def chunkedDataLen_eq
      fill8_def magicChunked_def shortOutside_def emptyEnv_def newUDPWriter_def plainWriter_def
      NoCompress_def CompressGzip_def CompressZlib_def Let_def)


lemma encode_boot_flat:
  "map_sum Error id
     (jsonObject demoLibs (structFields bootMessage @ sort_key fst (entries (Extra bootMessage))))
   = Inr bootText"
  by code_simp



lemma prepare_boot:
  "prepare demoLibs plainWriter bootMessage emptyEnv =
     (Inr bootText, plainWriter\<lparr>zw := Some BufferedWriter\<rparr>, emptyEnv)"
  by code_simp

lemma decode_emptyKey: "json_Unmarshal demoLibs emptyKeyText = Inr [([], GFloat64 (Finite 1))]"
  by code_simp

section \<open>The claims\<close>

subsection \<open>C1: the chunks of a buffer reassemble to the buffer\<close>

text \<open>
  Claim C1. Let the chunk count of a compressed buffer be between 2 and 255, let the
  random source deliver its 8 bytes and the connection take every datagram whole. Then
  \<^verbatim>\<open>writeChunked\<close> returns no error and has handed to the connection exactly
  \<open>numChunks zBytes\<close> datagrams; datagram \<open>k\<close> carries the index \<open>k\<close>, the count, and
  the bytes \<open>k * 1408 ..< (k + 1) * 1408\<close> of the buffer (as far as the buffer goes), so
  the payloads are contiguous and do not overlap; the last one carries the remainder
  \<open>length zBytes mod 1408\<close>; and the payloads in the order of their indices, one after
  the other, are the buffer.
\<close>

theorem writeChunked_reassembles:
  assumes ge: "2 \<le> numChunks zBytes" and le: "numChunks zBytes \<le> 255"
    and rd: "rand_ReadFull out (draws e) = (bs, 8, None)"
    and conn: "\<And>k buf. conn_Write out k buf = (int (length buf), None)"
  shows "\<exists>ds. writeChunked out zBytes e =
            (Inr (), e\<lparr>writes := writes e @ ds, draws := Suc (draws e)\<rparr>)
      \<and> int (length ds) = numChunks zBytes
      \<and> (\<forall>k < length ds.
            ds ! k = magicChunked @ fill8 bs @ [of_nat k, of_nat (length ds)]
                       @ take 1408 (drop (k * 1408) zBytes))
      \<and> length (drop 12 (last ds)) = length zBytes mod 1408
      \<and> concat (map (drop 12) ds) = zBytes"
proof -
  define n :: byte where "n = word_of_int (numChunks zBytes)"
  define N where "N = nat (numChunks zBytes)"
  define e1 where "e1 = e\<lparr>draws := Suc (draws e)\<rparr>"
  define ds where "ds = map (chunkFrame (fill8 bs) n zBytes) [0 ..< N]"
  have un: "unat n = N"
    unfolding n_def N_def by (rule unat_nChunks [OF le])
  have N: "int N = numChunks zBytes" and N2: "2 \<le> N"
    using ge by (simp_all add: N_def)
  have nN: "n = of_nat N"
    using un [symmetric] by simp
  have Ndiv: "N = length zBytes div 1408 + 1"
  proof -
    from ge have "numChunks zBytes = int (length zBytes) div 1408 + 1"
      by (simp add: numChunks_cases split: if_splits)
    then have "int N = int (length zBytes div 1408 + 1)"
      using N by (simp add: zdiv_int)
    then show ?thesis by linarith
  qed
  have inv: "\<And>j. j < unat n \<Longrightarrow> j * 1408 \<le> length zBytes"
    unfolding n_def by (rule numChunks_inv [OF le])
  have loop: "chunkLoop out zBytes (fill8 bs) n 0 (int (length zBytes)) e1 =
      (Inr 0, e1\<lparr>writes := writes e1 @ ds\<rparr>)"
    using chunkLoop_all_ok [where i = 0 and n = n and z = zBytes and out = out
        and msgId = "fill8 bs" and e = e1, OF conn inv]
      leftAfter_end [OF ge] un
    by (simp add: leftAfter_0 ds_def N_def)
  have w: "writeChunked out zBytes e =
      (Inr (), e\<lparr>writes := writes e @ ds, draws := Suc (draws e)\<rparr>)"
    using le by (simp add: writeChunked_def Let_def rd n_def [symmetric] e1_def [symmetric] loop)
      (simp add: e1_def)
  have len: "length ds = N"
    by (simp add: ds_def)
  have frames: "\<forall>k < length ds.
      ds ! k = magicChunked @ fill8 bs @ [of_nat k, of_nat (length ds)]
                 @ take 1408 (drop (k * 1408) zBytes)"
    by (simp add: ds_def chunkFrame_def nN)
  have pay: "map (drop 12) ds = map (\<lambda>k. take 1408 (drop (k * 1408) zBytes)) [0 ..< N]"
    by (simp add: ds_def drop12_chunkFrame length_fill8)
  have cat: "concat (map (drop 12) ds) = zBytes"
    unfolding pay concat_slices using Ndiv by simp
  have "ds \<noteq> []"
    using N2 by (simp add: ds_def)
  then have "last ds = ds ! (N - 1)"
    by (simp add: last_conv_nth len)
  also have "\<dots> = chunkFrame (fill8 bs) n zBytes (N - 1)"
    using N2 by (simp add: ds_def)
  finally have "drop 12 (last ds) = take 1408 (drop ((N - 1) * 1408) zBytes)"
    by (simp add: drop12_chunkFrame length_fill8)
  then have lst: "length (drop 12 (last ds)) = length zBytes mod 1408"
    using Ndiv by (simp add: min_def modulo_nat_def)
  show ?thesis
    using w len N frames lst cat by auto
qed

text \<open>The theorem at a buffer of 3000 bytes, which needs three chunks.\<close>

theorem writeChunked_reassembles_witness:
  "2 \<le> numChunks (replicate 3000 0x78) \<and> numChunks (replicate 3000 0x78) \<le> 255
   \<and> (\<exists>ds. writeChunked reliableOutside (replicate 3000 0x78) emptyEnv =
            (Inr (), emptyEnv\<lparr>writes := writes emptyEnv @ ds, draws := Suc (draws emptyEnv)\<rparr>)
      \<and> int (length ds) = numChunks (replicate 3000 0x78)
      \<and> (\<forall>k < length ds.
            ds ! k = magicChunked @ fill8 (replicate 8 0x5A) @ [of_nat k, of_nat (length ds)]
                       @ take 1408 (drop (k * 1408) (replicate 3000 0x78)))
      \<and> length (drop 12 (last ds)) = length (replicate 3000 (0x78 :: byte)) mod 1408
      \<and> concat (map (drop 12) ds) = replicate 3000 0x78)"
proof -
  have ge: "2 \<le> numChunks (replicate 3000 0x78)"
    by (simp add: numChunks_cases)
  have le: "numChunks (replicate 3000 0x78) \<le> 255"
    by (simp add: numChunks_cases)
  have rd: "rand_ReadFull reliableOutside (draws emptyEnv) = (replicate 8 0x5A, 8, None)"
    by (simp add: reliableOutside_def)
  have conn: "\<And>k buf. conn_Write reliableOutside k buf = (int (length buf), None)"
    by (simp add: reliableOutside_def)
  from writeChunked_reassembles [OF ge le rd conn] ge le show ?thesis
    by blast
qed

subsection \<open>C2: one datagram or chunks\<close>

text \<open>
  Claim C2. \<^verbatim>\<open>numChunks\<close> is 1 for a buffer of at most \<open>ChunkSize\<close> = 1420 bytes and
  \<^verbatim>\<open>len(b)/1408 + 1\<close> for a longer one. When it is 1 for the compressed bytes,
  \<^verbatim>\<open>WriteMessage\<close> hands exactly these bytes to the connection, as one datagram and with
  nothing put in front; otherwise its result is that of \<^verbatim>\<open>writeChunked\<close>.
\<close>

theorem numChunks_dispatch:
  "numChunks b = (if int (length b) \<le> ChunkSize then 1 else int (length b) div chunkedDataLen + 1)
   \<and> ChunkSize = 1420 \<and> chunkedDataLen = 1408
   \<and> (prepare lib w m e = (Inr zBytes, w', e') \<longrightarrow>
        (numChunks zBytes = 1 \<longrightarrow>
           (\<exists>r e''. WriteMessage lib out w m e = (r, w', e'')
              \<and> e'' = e'\<lparr>writes := writes e' @ [zBytes]\<rparr>)) \<and>
        (numChunks zBytes \<noteq> 1 \<longrightarrow>
           WriteMessage lib out w m e =
             (case writeChunked out zBytes e' of (r, e'') \<Rightarrow> (r, w', e''))))"
  by (auto simp: numChunks_def Let_def chunkedDataLen_eq ChunkSize_def WriteMessage_def
      sendBytes_def split: prod.splits option.splits)

text \<open>The theorem at \<open>bootMessage\<close>, sent without compression: its 149 bytes go out as
  they are.\<close>

theorem numChunks_dispatch_witness:
  "prepare demoLibs plainWriter bootMessage emptyEnv =
     (Inr bootText, plainWriter\<lparr>zw := Some BufferedWriter\<rparr>, emptyEnv)
   \<and> numChunks bootText = 1
   \<and> (\<exists>r e''. WriteMessage demoLibs reliableOutside plainWriter bootMessage emptyEnv =
          (r, plainWriter\<lparr>zw := Some BufferedWriter\<rparr>, e'')
        \<and> e'' = emptyEnv\<lparr>writes := writes emptyEnv @ [bootText]\<rparr>)"
proof -
  have one: "numChunks bootText = 1"
    by (simp add: numChunks_cases bootText_def)
  from numChunks_dispatch [of bootText demoLibs plainWriter bootMessage emptyEnv bootText
      "plainWriter\<lparr>zw := Some BufferedWriter\<rparr>" emptyEnv reliableOutside]
    prepare_boot one show ?thesis
    by blast
qed

subsection \<open>C3: the compressor is not kept\<close>

text \<open>
  Claim C3 says that two calls in a row with the same settings use the same compressor.
  The code compares the settings with \<^verbatim>\<open>zwCompressionType\<close> and \<^verbatim>\<open>zwCompressionLevel\<close>,
  which no line ever assigns: they stay 0. On the writer of \<^verbatim>\<open>newUDPWriter\<close> (gzip, level
  1), with nothing changed between the calls, each of two calls drops the compressor and
  constructs one: after the first call the writer holds a gzip compressor of level 1 and
  one has been built, after the second two have been built.
\<close>

theorem WriteMessage_rebuilds_compressor:
  "(case WriteMessage demoLibs reliableOutside newUDPWriter bootMessage emptyEnv of
      (r1, w1, e1) \<Rightarrow>
        (case WriteMessage demoLibs reliableOutside w1 bootMessage e1 of
           (r2, w2, e2) \<Rightarrow>
             (r1, CompressionType w1, CompressionLevel w1, zw w1, built e1,
              r2, CompressionType w2, CompressionLevel w2, zw w2, built e2)))
   = (Inr (), CompressionType newUDPWriter, CompressionLevel newUDPWriter, Some (GzipWriter 1), 1,
      Inr (), CompressionType newUDPWriter, CompressionLevel newUDPWriter, Some (GzipWriter 1), 2)"
  by code_simp

text \<open>
  The other half fails the other way round: 0 and 0 are the settings gzip, level 0, so
  a writer changed to them keeps the compressor it has. After a call with zlib at level 0
  and a call with gzip at level 0, one compressor has been built, the writer still holds
  the zlib one, and both datagrams start with the zlib byte \<^verbatim>\<open>0x78\<close>.
\<close>

lemma WriteMessage_keeps_stale_compressor:
  "(case WriteMessage demoLibs reliableOutside
           (newUDPWriter\<lparr>CompressionType := CompressZlib, CompressionLevel := 0\<rparr>)
           bootMessage emptyEnv of
      (r1, w1, e1) \<Rightarrow>
        (case WriteMessage demoLibs reliableOutside (w1\<lparr>CompressionType := CompressGzip\<rparr>)
                bootMessage e1 of
           (r2, w2, e2) \<Rightarrow> (r1, zw w1, built e1, r2, zw w2, built e2, map (take 1) (writes e2))))
   = (Inr (), Some (ZlibWriter 0), 1, Inr (), Some (ZlibWriter 0), 1, [[0x78], [0x78]])"
  by code_simp

text \<open>No call changes the two cached settings, whatever the library and the outside.\<close>

lemma WriteMessage_cache_fields:
  assumes "WriteMessage lib out w m e = (r, w', e')"
  shows "zwCompressionType w' = zwCompressionType w \<and> zwCompressionLevel w' = zwCompressionLevel w"
  using assms
  by (auto simp: WriteMessage_def prepare_def dropStale_def obtainWriter_def newWriter_def
      split: sum.splits prod.splits option.splits if_splits)

subsection \<open>C4: more than 255 chunks\<close>

text \<open>
  Claim C4. When the chunk count of the buffer exceeds 255, \<^verbatim>\<open>writeChunked\<close> returns the
  error \<^verbatim>\<open>msg too large\<close> and leaves the outside as it was: no datagram is handed to the
  connection and the random source is not read, whatever the two would have answered.
  The same holds for the send that called it.
\<close>

theorem writeChunked_too_large:
  assumes "numChunks zBytes > 255"
  shows "writeChunked out zBytes e = (Inl (Error (MsgTooLarge (numChunks zBytes))), e)
    \<and> sendBytes out zBytes e = (Inl (Error (MsgTooLarge (numChunks zBytes))), e)"
  using assms by (simp add: writeChunked_def sendBytes_def Let_def)

text \<open>The theorem at 359040 bytes, the shortest buffer with 256 chunks.\<close>

theorem writeChunked_too_large_witness:
  "numChunks (replicate 359040 0x78) > 255
   \<and> writeChunked reliableOutside (replicate 359040 0x78) emptyEnv =
       (Inl (Error (MsgTooLarge 256)), emptyEnv)
   \<and> sendBytes reliableOutside (replicate 359040 0x78) emptyEnv =
       (Inl (Error (MsgTooLarge 256)), emptyEnv)"
proof -
  have n: "numChunks (replicate 359040 0x78) = 256"
    by (simp add: numChunks_cases)
  then have "numChunks (replicate 359040 0x78) > 255"
    by simp
  from writeChunked_too_large [OF this, of reliableOutside emptyEnv] n show ?thesis
    by simp
qed

subsection \<open>C5: the header of a chunk\<close>

text \<open>
  Claim C5. Whatever the outside answers and however \<^verbatim>\<open>writeChunked\<close> ends, every
  datagram it has handed to the connection is the two bytes \<^verbatim>\<open>0x1e 0x0f\<close>, an 8-byte
  identifier that is the same for all of them, one byte with the index of the datagram
  counted from 0, one byte with the chunk count, and the payload; and it is at most
  \<open>ChunkSize\<close> = 1420 bytes long.
\<close>

theorem writeChunked_header:
  assumes run: "writeChunked out zBytes e = (r, e')"
  shows "\<exists>ds msgId. writes e' = writes e @ ds \<and> length msgId = 8 \<and>
           (\<forall>k < length ds.
              ds ! k = [0x1e, 0x0f] @ msgId @ [of_nat k, word_of_int (numChunks zBytes)]
                         @ take 1408 (drop (k * 1408) zBytes)
              \<and> int (length (ds ! k)) \<le> ChunkSize)"
proof (cases "numChunks zBytes > 255")
  case True
  with run have "e' = e"
    by (simp add: writeChunked_def Let_def)
  then show ?thesis
    by (intro exI [of _ "[]"] exI [of _ "replicate 8 0"]) simp
next
  case False
  then have le: "numChunks zBytes \<le> 255"
    by simp
  obtain bs n err where rd: "rand_ReadFull out (draws e) = (bs, n, err)"
    by (cases "rand_ReadFull out (draws e)") auto
  show ?thesis
  proof (cases "err \<noteq> None \<or> n \<noteq> 8")
    case True
    with run le rd have "e' = e\<lparr>draws := Suc (draws e)\<rparr>"
      by (auto simp: writeChunked_def Let_def)
    then show ?thesis
      by (intro exI [of _ "[]"] exI [of _ "replicate 8 0"]) simp
  next
    case False
    with rd have rd': "rand_ReadFull out (draws e) = (bs, 8, None)"
      by simp
    from writeChunked_run [OF le rd'] run obtain ds where
      w: "e' = e\<lparr>writes := writes e @ ds, draws := Suc (draws e)\<rparr>"
      and frames: "\<forall>k < length ds. ds ! k = chunkFrame (fill8 bs) (word_of_int (numChunks zBytes)) zBytes k"
      by auto
    have "\<forall>k < length ds.
              ds ! k = [0x1e, 0x0f] @ fill8 bs @ [of_nat k, word_of_int (numChunks zBytes)]
                         @ take 1408 (drop (k * 1408) zBytes)
              \<and> int (length (ds ! k)) \<le> ChunkSize"
      using frames by (simp add: chunkFrame_def magicChunked_def length_fill8 ChunkSize_def)
    moreover have "writes e' = writes e @ ds"
      using w by simp
    moreover have "length (fill8 bs) = 8"
      by (rule length_fill8)
    ultimately show ?thesis
      by blast
  qed
qed

text \<open>The theorem at a buffer of 3000 bytes on a connection that cuts the second
  datagram short: two datagrams have gone out.\<close>

theorem writeChunked_header_witness:
  "writeChunked shortOutside (replicate 3000 0x78) emptyEnv =
     (Inl (Error (WriteLenError 1 3 100 1420)),
      \<lparr>writes = [[0x1e, 0x0f] @ replicate 8 0x5A @ [0, 3] @ replicate 1408 0x78,
                 [0x1e, 0x0f] @ replicate 8 0x5A @ [1, 3] @ replicate 1408 0x78],
       draws = 1, built = 0\<rparr>)
   \<and> (\<exists>ds msgId.
         writes \<lparr>writes = [[0x1e, 0x0f] @ replicate 8 0x5A @ [0, 3] @ replicate 1408 0x78,
                          [0x1e, 0x0f] @ replicate 8 0x5A @ [1, 3] @ replicate 1408 0x78],
                draws = 1, built = 0\<rparr> = writes emptyEnv @ ds
         \<and> length msgId = 8
         \<and> (\<forall>k < length ds.
              ds ! k = [0x1e, 0x0f] @ msgId
                         @ [of_nat k, word_of_int (numChunks (replicate 3000 0x78))]
                         @ take 1408 (drop (k * 1408) (replicate 3000 0x78))
              \<and> int (length (ds ! k)) \<le> ChunkSize))"
  using writeChunked_header [OF run_chunks_short] run_chunks_short by blast

subsection \<open>C6: a message is written as one flat object\<close>

text \<open>
  Claim C6. For every message, \<^verbatim>\<open>MarshalJSON\<close> returns what encoding/json writes for the
  one object whose members are the fields of the struct followed by the entries of
  \<^verbatim>\<open>Extra\<close>, each entry under its own key as the library writes any key (nothing is put
  in front of the key, and no member holds the entries as an object of their own); an
  error of the library for a field or an entry is the error of \<^verbatim>\<open>MarshalJSON\<close>. When
  \<^verbatim>\<open>Extra\<close> has no entry, the bytes are those of the struct alone.
\<close>

theorem MarshalJSON_flat_object:
  "MarshalJSON lib m =
     map_sum Error id (jsonObject lib (structFields m @ sort_key fst (entries (Extra m))))
   \<and> (len_map (Extra m) = 0 \<longrightarrow>
        MarshalJSON lib m = map_sum Error id (json_Marshal_inner lib m))"
proof
  show "MarshalJSON lib m =
     map_sum Error id (jsonObject lib (structFields m @ sort_key fst (entries (Extra m))))"
    using MarshalJSON_eq [of lib m] by (simp add: flatObject_def)
  show "len_map (Extra m) = 0 \<longrightarrow>
        MarshalJSON lib m = map_sum Error id (json_Marshal_inner lib m)"
    by (auto simp: MarshalJSON_def Let_def split: sum.splits)
qed

text \<open>The theorem at the zero message, which has no extension, and at \<open>bootMessage\<close>,
  whose two extension fields come out as the last two members of \<open>bootText\<close>.\<close>

theorem MarshalJSON_flat_object_witness:
  "len_map (Extra zeroMessage) = 0
   \<and> MarshalJSON demoLibs zeroMessage = map_sum Error id (json_Marshal_inner demoLibs zeroMessage)
   \<and> MarshalJSON demoLibs bootMessage = Inr bootText"
proof -
  have a: "len_map (Extra zeroMessage) = 0"
    by (simp add: zeroMessage_def len_map_def)
  with MarshalJSON_flat_object [of demoLibs zeroMessage] have b:
    "MarshalJSON demoLibs zeroMessage = map_sum Error id (json_Marshal_inner demoLibs zeroMessage)"
    by blast
  from MarshalJSON_flat_object [of demoLibs bootMessage] have
    "MarshalJSON demoLibs bootMessage =
       map_sum Error id
         (jsonObject demoLibs (structFields bootMessage @ sort_key fst (entries (Extra bootMessage))))"
    by blast
  then have c: "MarshalJSON demoLibs bootMessage = Inr bootText"
    by (simp only: encode_boot_flat)
  from a b c show ?thesis
    by blast
qed

subsection \<open>C7: decoding an encoded message gives the message\<close>



subsection \<open>C8: a field of the wrong JSON type\<close>

text \<open>
  Claim C8 says that \<^verbatim>\<open>UnmarshalJSON\<close> returns an error, or drops the field, when a known
  key carries a value of another JSON type. The code reads the value with an unchecked
  type assertion, which panics: for the object \<^verbatim>\<open>{"version":1}\<close> the result is the panic of
  \<^verbatim>\<open>v.(string)\<close> at the key \<^verbatim>\<open>version\<close>, not an error.
\<close>

theorem UnmarshalJSON_mistyped_panics:
  "UnmarshalJSON demoLibs zeroMessage mistypedText = Inl (Panic (TypeAssertionFailed ''version''))"
  by code_simp

subsection \<open>C9: a short write ends the send with an error\<close>

text \<open>
  Claim C9. After every \<^verbatim>\<open>conn.Write\<close> of a send, chunked or not, the count the
  connection reports is compared with the length of the buffer: when the count is
  another, the send returns an error and that write is the last of the send, so nothing
  is written again and no later chunk goes out. When the connection reports no error
  beside the count, the error is \<^verbatim>\<open>bad write\<close> for the single datagram and \<^verbatim>\<open>Write len\<close>
  for a chunk.
\<close>

theorem WriteMessage_short_write:
  assumes run: "WriteMessage lib out w m e = (r, w', e')"
  shows "\<exists>ds. writes e' = writes e @ ds \<and>
     (\<forall>k < length ds. \<forall>n err.
        conn_Write out (length (writes e) + k) (ds ! k) = (n, err) \<and> n \<noteq> int (length (ds ! k)) \<longrightarrow>
          Suc k = length ds \<and> (\<exists>ge. r = Inl (Error ge)) \<and>
          (err = None \<longrightarrow>
             (\<exists>nChunks. r = Inl (Error (BadWrite n (int (length (ds ! k))))) \<or>
                r = Inl (Error (WriteLenError (of_nat k) nChunks n (int (length (ds ! k))))))))"
proof -
  obtain x w1 e1 where p: "prepare lib w m e = (x, w1, e1)"
    by (cases "prepare lib w m e") auto
  have we: "writes e1 = writes e"
    using prepare_writes [OF p] by simp
  show ?thesis
  proof (cases x)
    case (Inl f)
    with run p have "e' = e1"
      by (simp add: WriteMessage_def)
    with we show ?thesis
      by (intro exI [of _ "[]"]) simp
  next
    case (Inr zBytes)
    with run p have s: "sendBytes out zBytes e1 = (r, e')"
      by (auto simp: WriteMessage_def split: prod.splits)
    from sendBytes_short_write [OF s] obtain ds where
      a: "writes e' = writes e1 @ ds" and
      b: "\<forall>k < length ds. \<forall>n err.
        conn_Write out (length (writes e1) + k) (ds ! k) = (n, err) \<and> n \<noteq> int (length (ds ! k)) \<longrightarrow>
          Suc k = length ds \<and> (\<exists>ge. r = Inl (Error ge)) \<and>
          (err = None \<longrightarrow>
             r = Inl (Error (BadWrite n (int (length (ds ! k))))) \<or>
             r = Inl (Error (WriteLenError (of_nat k) (word_of_int (numChunks zBytes)) n
                    (int (length (ds ! k))))))"
      by blast
    from b have "\<forall>k < length ds. \<forall>n err.
        conn_Write out (length (writes e) + k) (ds ! k) = (n, err) \<and> n \<noteq> int (length (ds ! k)) \<longrightarrow>
          Suc k = length ds \<and> (\<exists>ge. r = Inl (Error ge)) \<and>
          (err = None \<longrightarrow>
             (\<exists>nChunks. r = Inl (Error (BadWrite n (int (length (ds ! k))))) \<or>
                r = Inl (Error (WriteLenError (of_nat k) nChunks n (int (length (ds ! k)))))))"
      unfolding we by blast
    with a we show ?thesis
      by auto
  qed
qed

text \<open>The theorem at \<open>longMessage\<close>, whose 3149 bytes need three chunks, on a connection
  that reports 100 bytes for the second one: the send returns \<^verbatim>\<open>Write len\<close> for chunk 1
  after two datagrams.\<close>

theorem WriteMessage_short_write_witness:
  "(case WriteMessage demoLibs shortOutside plainWriter longMessage emptyEnv of
      (r, w, e) \<Rightarrow> (r, map length (writes e)))
   = (Inl (Error (WriteLenError 1 3 100 1420)), [1420, 1420])
   \<and> (\<exists>ds. writes (snd (snd (WriteMessage demoLibs shortOutside plainWriter longMessage emptyEnv)))
             = writes emptyEnv @ ds \<and>
     (\<forall>k < length ds. \<forall>n err.
        conn_Write shortOutside (length (writes emptyEnv) + k) (ds ! k) = (n, err)
          \<and> n \<noteq> int (length (ds ! k)) \<longrightarrow>
          Suc k = length ds
          \<and> (\<exists>ge. fst (WriteMessage demoLibs shortOutside plainWriter longMessage emptyEnv)
                   = Inl (Error ge))
          \<and> (err = None \<longrightarrow>
             (\<exists>nChunks.
                fst (WriteMessage demoLibs shortOutside plainWriter longMessage emptyEnv)
                  = Inl (Error (BadWrite n (int (length (ds ! k))))) \<or>
                fst (WriteMessage demoLibs shortOutside plainWriter longMessage emptyEnv)
                  = Inl (Error (WriteLenError (of_nat k) nChunks n (int (length (ds ! k)))))))))"
proof -
  have "WriteMessage demoLibs shortOutside plainWriter longMessage emptyEnv =
      (fst (WriteMessage demoLibs shortOutside plainWriter longMessage emptyEnv),
       fst (snd (WriteMessage demoLibs shortOutside plainWriter longMessage emptyEnv)),
       snd (snd (WriteMessage demoLibs shortOutside plainWriter longMessage emptyEnv)))"
    by simp
  from WriteMessage_short_write [OF this] run_long_short show ?thesis
    by blast
qed

subsection \<open>C10: the empty key\<close>

text \<open>
  Claim C10 says that an object with the key \<^verbatim>\<open>""\<close> makes the decoder panic with index
  out of range. It panics, but not always so: when the visit of the map reaches a known
  key with a value of the wrong type before it reaches the empty key, the panic is that
  of the type assertion. For \<^verbatim>\<open>{"version":1,"":null}\<close>, visited in this order:
\<close>

theorem UnmarshalJSON_empty_key_counterexample:
  "json_Unmarshal demoLibs mixedText = Inr [(''version'', GFloat64 (Finite 1)), ([], GNil)]
   \<and> UnmarshalJSON demoLibs zeroMessage mixedText = Inl (Panic (TypeAssertionFailed ''version''))
   \<and> UnmarshalJSON demoLibs zeroMessage mixedText \<noteq> Inl (Panic IndexOutOfRange)"
  by code_simp

text \<open>
  Whatever comes before it, an object with the empty key never decodes: the result is a
  panic, never an error and never a message.
\<close>

lemma UnmarshalJSON_empty_key_panics:
  assumes dec: "json_Unmarshal lib data = Inr kvs" and mem: "[] \<in> fst ` set kvs"
  shows "\<exists>p. UnmarshalJSON lib m data = Inl (Panic p)"
  using rangeLoop_empty_key [OF mem, of lib m] by (simp add: UnmarshalJSON_def dec)

text \<open>
  Claim C10, amended. \<^verbatim>\<open>UnmarshalJSON\<close> reads \<^verbatim>\<open>k[0]\<close> of every key without asking whether
  the key is empty. When the object that the library has read holds the empty key, and
  every entry visited before the empty key passes its type assertion (or has none), the
  decoding does not return an error: it panics with index out of range.
\<close>

theorem UnmarshalJSON_empty_key:
  assumes dec: "json_Unmarshal lib data = Inr kvs" and mem: "[] \<in> fst ` set kvs"
    and typed: "list_all (\<lambda>kv. wellTyped (fst kv) (snd kv)) (takeWhile (\<lambda>kv. fst kv \<noteq> []) kvs)"
  shows "UnmarshalJSON lib m data = Inl (Panic IndexOutOfRange)"
  using rangeLoop_empty_key_first [OF mem typed, of lib m] by (simp add: UnmarshalJSON_def dec)

text \<open>The theorem at the object \<^verbatim>\<open>{"":1}\<close>.\<close>

theorem UnmarshalJSON_empty_key_witness:
  "json_Unmarshal demoLibs emptyKeyText = Inr [([], GFloat64 (Finite 1))]
   \<and> UnmarshalJSON demoLibs zeroMessage emptyKeyText = Inl (Panic IndexOutOfRange)"
proof -
  have mem: "[] \<in> fst ` set [([] :: string, GFloat64 (Finite 1))]"
    by simp
  have typed: "list_all (\<lambda>kv. wellTyped (fst kv) (snd kv))
      (takeWhile (\<lambda>kv. fst kv \<noteq> []) [([] :: string, GFloat64 (Finite 1))])"
    by simp
  from UnmarshalJSON_empty_key [OF decode_emptyKey mem typed, of zeroMessage] decode_emptyKey
  show ?thesis
    by simp
qed

end
